theory Spec2Isabelle
  imports Main
begin

section \<open>The message model of mailio (src/message.cpp)\<close>

text \<open>
  A shallow embedding of \<^verbatim>\<open>mailio::message\<close>. Strings are byte strings
  (\<^typ>\<open>string\<close>), a thrown exception is the left injection of a sum, an output
  parameter or stream is a value passed in and returned. Code of the collaborators
  (\<^verbatim>\<open>mime\<close>, \<^verbatim>\<open>codec\<close>, the date library) that message.cpp calls but does
  not define is a parameter of the function that calls it.
\<close>

subsection \<open>Data\<close>

text \<open>\<^verbatim>\<open>message_error\<close> with its text, or an exception of a collaborator.\<close>

datatype error = Message_error string | Other_error string

text \<open>
  \<^verbatim>\<open>mail_address\<close>, \<^verbatim>\<open>mail_group\<close> and \<^verbatim>\<open>mailboxes\<close>. The records of groups
  and mailboxes are declared for any extension \<open>'z\<close> of the address record. The code has
  the plain records (\<open>'z\<close> is \<^typ>\<open>unit\<close>) and never looks at an extension; the proofs
  about the parser use one to mark the addresses it stores.
\<close>

record mail_address =
  name :: string
  address :: string

record 'z mail_group_of =
  group_name :: string
  members :: "'z mail_address_scheme list"

record 'z mailboxes_of =
  addresses :: "'z mail_address_scheme list"
  groups :: "'z mail_group_of list"

type_synonym mail_group = "unit mail_group_of"

type_synonym mailboxes = "unit mailboxes_of"

text \<open>
  The enumerations of the \<^verbatim>\<open>mime\<close> collaborator, declared outside message.cpp, which
  names the enumerators \<^verbatim>\<open>MULTIPART\<close>, \<^verbatim>\<open>BASE_64\<close> and \<^verbatim>\<open>ATTACHMENT\<close>; the
  other enumerators stand for the values message.cpp does not name.
\<close>

datatype media_type_t =
  NONE_TYPE | TEXT | IMAGE | AUDIO | VIDEO | APPLICATION | MULTIPART | MESSAGE

datatype content_transfer_encoding_t =
  NONE_ENCODING | BIT_7 | BIT_8 | BASE_64 | QUOTED_PRINTABLE | BINARY

datatype content_disposition_t = NONE_DISPOSITION | INLINE | ATTACHMENT

record content_type_t =
  media_type :: media_type_t
  subtype :: string
  charset :: string

text \<open>
  The \<^verbatim>\<open>mime\<close> entity, with the members message.cpp reads and writes. The parts
  of a message are \<^verbatim>\<open>mime\<close> values (\<^verbatim>\<open>_parts.push_back(m)\<close> with
  \<^verbatim>\<open>mime m\<close>).
\<close>

datatype mime = Mime
  (content_type: content_type_t)
  (content_transfer_encoding: content_transfer_encoding_t)
  (content_disposition: content_disposition_t)
  (mime_name: string)
  (content: string)
  (boundary: string)
  (version: string)
  (parts: "mime list")

text \<open>
  The value of boost's \<^verbatim>\<open>local_date_time\<close>: the special value
  \<^verbatim>\<open>not_a_date_time\<close>, or a date, a time of day in seconds precision and the
  zone's offset from UTC in minutes.
\<close>

datatype local_date_time =
  Not_a_date_time
  | Local_date_time (ldt_year: nat) (ldt_month: nat) (ldt_day: nat)
      (ldt_hours: nat) (ldt_minutes: nat) (ldt_seconds: nat) (ldt_offset: int)

text \<open>\<^verbatim>\<open>class message : public mime\<close>: the base object and the members added.\<close>

record message =
  base :: mime
  sender :: mail_address
  reply_address :: mail_address
  recipients :: mailboxes
  cc_recipients :: mailboxes
  bcc_recipients :: mailboxes
  subject :: string
  date_time :: local_date_time

subsection \<open>Attachments\<close>

text \<open>
  \<^verbatim>\<open>message::attach\<close>. \<open>fresh_boundary\<close> is what \<^verbatim>\<open>make_boundary()\<close>
  returns, \<open>fresh_mime\<close> the default-constructed \<^verbatim>\<open>mime m\<close>, \<open>att_strm\<close> the
  bytes read from the stream.
\<close>

definition attach ::
  "string \<Rightarrow> mime \<Rightarrow> string \<Rightarrow> string \<Rightarrow> media_type_t \<Rightarrow> string \<Rightarrow> message \<Rightarrow> message" where
  "attach fresh_boundary fresh_mime att_strm att_name type subtp msg =
    (case base msg of Mime ct enc disp nm cont bnd ver ps \<Rightarrow>
      let bnd' = (if bnd = [] then fresh_boundary else bnd);
          ct' = ct\<lparr>media_type := MULTIPART, subtype := ''mixed''\<rparr>;
          m = (case fresh_mime of Mime ct0 enc0 disp0 nm0 cont0 bnd0 ver0 ps0 \<Rightarrow>
                 Mime \<lparr>media_type = type, subtype = subtp, charset = []\<rparr>
                   BASE_64 ATTACHMENT att_name att_strm bnd0 ver0 ps0)
      in msg\<lparr>base := Mime ct' enc disp nm cont bnd' ver (ps @ [m])\<rparr>)"

text \<open>\<^verbatim>\<open>message::attachments_size\<close>: the loop counting the attachment parts.\<close>

fun count_attachments :: "nat \<Rightarrow> mime list \<Rightarrow> nat" where
  "count_attachments no [] = no"
| "count_attachments no (m # ms) =
    (if content_disposition m = ATTACHMENT then count_attachments (no + 1) ms
     else count_attachments no ms)"

definition attachments_size :: "message \<Rightarrow> nat" where
  "attachments_size msg = count_attachments 0 (parts (base msg))"

text \<open>
  The loop of \<^verbatim>\<open>message::attachment\<close>: the counter \<open>no\<close>, the output stream
  and the name, left as they are when the loop ends or breaks.
\<close>

fun attachment_loop :: "nat \<Rightarrow> nat \<Rightarrow> mime list \<Rightarrow> string \<Rightarrow> string \<Rightarrow> nat \<times> string \<times> string" where
  "attachment_loop index no [] att_strm att_name = (no, att_strm, att_name)"
| "attachment_loop index no (m # ms) att_strm att_name =
    (if content_disposition m = ATTACHMENT then
       (if no + 1 = index then (no + 1, att_strm @ content m, mime_name m)
        else attachment_loop index (no + 1) ms att_strm att_name)
     else attachment_loop index no ms att_strm att_name)"

text \<open>
  \<^verbatim>\<open>message::attachment\<close>: the exception thrown if any, the output stream and the
  name after the call. The \<^verbatim>\<open>size_t\<close> index and counter are natural numbers; the
  counter is at most the number of parts and cannot wrap around.
\<close>

definition attachment :: "nat \<Rightarrow> string \<Rightarrow> string \<Rightarrow> message \<Rightarrow> error option \<times> string \<times> string" where
  "attachment index att_strm att_name msg =
    (if index = 0 then (Some (Message_error ''No attachment at the given index.''), att_strm, att_name)
     else
       (case attachment_loop index 0 (parts (base msg)) att_strm att_name of
         (no, att_strm', att_name') \<Rightarrow>
           if no > length (parts (base msg))
           then (Some (Message_error ''No attachment at the given index.''), att_strm', att_name')
           else (None, att_strm', att_name')))"

text \<open>The attachment parts of a message, in append order.\<close>

definition attachment_parts :: "message \<Rightarrow> mime list" where
  "attachment_parts msg = filter (\<lambda>m. content_disposition m = ATTACHMENT) (parts (base msg))"

subsection \<open>Characters and constants\<close>

text \<open>
  The classification of \<^verbatim>\<open><cctype>\<close> in the C locale, on bytes. The
  character classes \<^verbatim>\<open>[A-Za-z]\<close> and \<^verbatim>\<open>[0-9]\<close>, \<^verbatim>\<open>\d\<close> of the regular
  expressions are the same sets.
\<close>

definition isalpha :: "char \<Rightarrow> bool" where
  "isalpha c = (let n = (of_char c :: nat) in (65 \<le> n \<and> n \<le> 90) \<or> (97 \<le> n \<and> n \<le> 122))"

definition isdigit :: "char \<Rightarrow> bool" where
  "isdigit c = (let n = (of_char c :: nat) in 48 \<le> n \<and> n \<le> 57)"

definition isspace :: "char \<Rightarrow> bool" where
  "isspace c = (let n = (of_char c :: nat) in n = 32 \<or> (9 \<le> n \<and> n \<le> 13))"

definition toupper :: "char \<Rightarrow> char" where
  "toupper c = (let n = (of_char c :: nat) in if 97 \<le> n \<and> n \<le> 122 then char_of (n - 32) else c)"

text \<open>\<^verbatim>\<open>boost::trim\<close>, \<^verbatim>\<open>boost::trim_copy\<close> and \<^verbatim>\<open>boost::iequals\<close>.\<close>

definition trim :: "string \<Rightarrow> string" where
  "trim s = rev (dropWhile isspace (rev (dropWhile isspace s)))"

definition iequals :: "string \<Rightarrow> string \<Rightarrow> bool" where
  "iequals a b = (map toupper a = map toupper b)"

text \<open>The constants of message.cpp.\<close>

definition ATEXT :: string where
  "ATEXT = ''!#$%&'' @ [CHR 0x27] @ ''*+-./=?^_`{|}~''"

definition DTEXT :: string where
  "DTEXT = ''!#$%&'' @ [CHR 0x27] @ ''*+-.@/=?^_`{|}~''"

definition FROM_HEADER :: string where "FROM_HEADER = ''From''"
definition REPLY_TO_HEADER :: string where "REPLY_TO_HEADER = ''Reply-To''"
definition TO_HEADER :: string where "TO_HEADER = ''To''"
definition CC_HEADER :: string where "CC_HEADER = ''Cc''"
definition BCC_HEADER :: string where "BCC_HEADER = ''Bcc''"
definition SUBJECT_HEADER :: string where "SUBJECT_HEADER = ''Subject''"
definition DATE_HEADER :: string where "DATE_HEADER = ''Date''"
definition MIME_VERSION_HEADER :: string where "MIME_VERSION_HEADER = ''MIME-Version''"

text \<open>The literal \<^verbatim>\<open>"\r\n"\<close>.\<close>

definition CRLF :: string where "CRLF = [CHR 0x0D, CHR 0x0A]"

text \<open>
  The character constants of \<^verbatim>\<open>codec\<close> that message.cpp names. They are declared
  outside message.cpp; each is taken to be the character of its name.
\<close>

definition QUOTE_CHAR :: char where "QUOTE_CHAR = CHR 0x22"
definition LESS_THAN_CHAR :: char where "LESS_THAN_CHAR = CHR ''<''"
definition GREATER_THAN_CHAR :: char where "GREATER_THAN_CHAR = CHR ''>''"
definition MONKEY_CHAR :: char where "MONKEY_CHAR = CHR ''@''"
definition COMMA_CHAR :: char where "COMMA_CHAR = CHR '',''"
definition COLON_CHAR :: char where "COLON_CHAR = CHR '':''"
definition SEMICOLON_CHAR :: char where "SEMICOLON_CHAR = CHR '';''"
definition SPACE_CHAR :: char where "SPACE_CHAR = CHR '' ''"
definition BACKSLASH_CHAR :: char where "BACKSLASH_CHAR = CHR 0x5C"
definition LEFT_PARENTHESIS_CHAR :: char where "LEFT_PARENTHESIS_CHAR = CHR ''(''"
definition RIGHT_PARENTHESIS_CHAR :: char where "RIGHT_PARENTHESIS_CHAR = CHR '')''"

subsection \<open>Exceptions and collaborators\<close>

text \<open>Sequencing of statements that may throw.\<close>

definition bind_err :: "error + 'a \<Rightarrow> ('a \<Rightarrow> error + 'b) \<Rightarrow> error + 'b" where
  "bind_err x f = (case x of Inl e \<Rightarrow> Inl e | Inr v \<Rightarrow> f v)"

definition bad_address :: "error + 'a" where
  "bad_address = Inl (Message_error ''Bad address or group.'')"

text \<open>
  What message.cpp uses and does not define: the string constants \<^verbatim>\<open>COLON\<close> and
  \<^verbatim>\<open>QTEXT\<close>, the methods of \<^verbatim>\<open>mime\<close> (\<^verbatim>\<open>format_header\<close>,
  \<^verbatim>\<open>format_content\<close>, \<^verbatim>\<open>format\<close> of a part into an empty string,
  \<^verbatim>\<open>parse_header_line\<close>, \<^verbatim>\<open>parse_header_name_value\<close>), and the date
  library: writing a date with the facet \<^verbatim>\<open>"%a, %d %b %Y %H:%M:%S %q"\<close> and reading
  one with \<^verbatim>\<open>"%a %d %b %Y %H:%M:%S %ZP"\<close> (\<open>None\<close>: the stream or the library threw).
\<close>

record collab =
  COLON :: string
  QTEXT :: string
  mime_format_header :: "mime \<Rightarrow> error + string"
  format_content :: "bool \<Rightarrow> mime \<Rightarrow> error + string"
  mime_format :: "bool \<Rightarrow> mime \<Rightarrow> error + string"
  mime_parse_header_line :: "string \<Rightarrow> mime \<Rightarrow> error + mime"
  parse_header_name_value :: "string \<Rightarrow> error + string \<times> string"
  put_date :: "local_date_time \<Rightarrow> string option"
  get_date :: "string \<Rightarrow> local_date_time option"

subsection \<open>Formatting addresses\<close>

text \<open>The character classes of the regular expressions of \<^verbatim>\<open>format_address\<close>
  and \<^verbatim>\<open>format_mailbox\<close>; \<^verbatim>\<open>regex_match\<close> of \<^verbatim>\<open>[...]*\<close> is \<open>list_all\<close>.\<close>

definition name_class :: "char \<Rightarrow> bool" where
  "name_class c = (isalpha c \<or> isdigit c \<or> c = CHR '' '' \<or> c = CHR 0x09)"

definition QTEXT_REGEX :: "char \<Rightarrow> bool" where
  "QTEXT_REGEX c = (isalpha c \<or> isdigit c \<or> c = CHR '' '' \<or> c = CHR 0x09 \<or>
     c \<in> set (''!#$%&'' @ [CHR 0x27] @ ''()*+,-.@/:;<=>?[]^_`{|}~''))"

definition DTEXT_REGEX :: "char \<Rightarrow> bool" where
  "DTEXT_REGEX c = (isalpha c \<or> isdigit c \<or>
     c \<in> set (''!#$%&'' @ [CHR 0x27] @ ''*+-.@/=?^_`{|}~''))"

definition ATEXT_REGEX :: "char \<Rightarrow> bool" where
  "ATEXT_REGEX c = (isalpha c \<or> isdigit c \<or>
     c \<in> set (''!#$%&'' @ [CHR 0x27] @ ''*+-./=?^_`{|}~''))"

definition format_address :: "string \<Rightarrow> string \<Rightarrow> error + string" where
  "format_address nm addr_in =
    (if nm = [] \<and> addr_in = [] then Inr []
     else
       bind_err
         (if list_all name_class nm then Inr nm
          else if list_all QTEXT_REGEX nm then Inr ([QUOTE_CHAR] @ nm @ [QUOTE_CHAR])
          else bad_address)
         (\<lambda>snd_name.
           bind_err
             (if addr_in \<noteq> [] then
                (if list_all DTEXT_REGEX addr_in
                 then Inr ([LESS_THAN_CHAR] @ addr_in @ [GREATER_THAN_CHAR])
                 else bad_address)
              else Inr [])
             (\<lambda>addr. Inr (if snd_name = [] then addr
                           else snd_name @ (if addr = [] then [] else '' '' @ addr)))))"

text \<open>The two loops over addresses of \<^verbatim>\<open>format_mailbox\<close>: every address but the
  last is followed by \<^verbatim>\<open>", "\<close>.\<close>

fun format_addresses :: "mail_address list \<Rightarrow> error + string" where
  "format_addresses [] = Inr []"
| "format_addresses (ma # mas) =
    bind_err (format_address (name ma) (address ma))
      (\<lambda>s. bind_err (format_addresses mas)
        (\<lambda>rest. Inr (s @ (if mas \<noteq> [] then '', '' else []) @ rest)))"

fun format_groups :: "mail_group list \<Rightarrow> error + string" where
  "format_groups [] = Inr []"
| "format_groups (mg # mgs) =
    (if \<not> list_all ATEXT_REGEX (group_name mg) then bad_address
     else
       bind_err (format_addresses (members mg))
         (\<lambda>ms. bind_err (format_groups mgs)
           (\<lambda>rest. Inr (group_name mg @ [COLON_CHAR] @ [SPACE_CHAR] @ ms @
                          (if mgs \<noteq> [] then ''; '' else '';'') @ rest))))"

definition format_mailbox :: "mailboxes \<Rightarrow> error + string" where
  "format_mailbox mailbox_list =
    bind_err (format_addresses (addresses mailbox_list))
      (\<lambda>as. bind_err (format_groups (groups mailbox_list))
        (\<lambda>gs. Inr (as @ (if groups mailbox_list = [] then [] else '', '') @ gs)))"

definition sender_to_string :: "message \<Rightarrow> error + string" where
  "sender_to_string msg = format_address (name (sender msg)) (address (sender msg))"

definition reply_address_to_string :: "message \<Rightarrow> error + string" where
  "reply_address_to_string msg =
     format_address (name (reply_address msg)) (address (reply_address msg))"

definition recipients_to_string :: "message \<Rightarrow> error + string" where
  "recipients_to_string msg = format_mailbox (recipients msg)"

definition cc_recipients_to_string :: "message \<Rightarrow> error + string" where
  "cc_recipients_to_string msg = format_mailbox (cc_recipients msg)"

definition bcc_recipients_to_string :: "message \<Rightarrow> error + string" where
  "bcc_recipients_to_string msg = format_mailbox (bcc_recipients msg)"

text \<open>\<^verbatim>\<open>mailboxes::empty\<close>: no address and no group.\<close>

definition mailboxes_empty :: "mailboxes \<Rightarrow> bool" where
  "mailboxes_empty mb = (addresses mb = [] \<and> groups mb = [])"

subsection \<open>Formatting a message\<close>

text \<open>\<^verbatim>\<open>message::format_header\<close>, statement by statement.\<close>

definition format_header :: "collab \<Rightarrow> message \<Rightarrow> error + string" where
  "format_header c msg =
    (if boundary (base msg) \<noteq> [] \<and> media_type (content_type (base msg)) \<noteq> MULTIPART
     then Inl (Message_error ''Non multipart message with boundary.'')
     else
       bind_err (sender_to_string msg) (\<lambda>sndr.
       let header1 = FROM_HEADER @ COLON c @ sndr @ CRLF in
       bind_err (if name (reply_address msg) = [] then Inr []
                 else bind_err (reply_address_to_string msg)
                        (\<lambda>r. Inr (REPLY_TO_HEADER @ COLON c @ r @ CRLF))) (\<lambda>rpl.
       let header2 = header1 @ rpl in
       bind_err (recipients_to_string msg) (\<lambda>rcp.
       let header3 = header2 @ TO_HEADER @ COLON c @ rcp @ CRLF in
       bind_err (if mailboxes_empty (cc_recipients msg) then Inr []
                 else bind_err (cc_recipients_to_string msg)
                        (\<lambda>r. Inr (CC_HEADER @ COLON c @ r @ CRLF))) (\<lambda>cc.
       let header4 = header3 @ cc in
       bind_err (if mailboxes_empty (bcc_recipients msg) then Inr []
                 else bind_err (bcc_recipients_to_string msg)
                        (\<lambda>r. Inr (BCC_HEADER @ COLON c @ r @ CRLF))) (\<lambda>bcc.
       let header5 = header4 @ bcc in
       bind_err (if date_time msg \<noteq> Not_a_date_time then
                   (case put_date c (date_time msg) of
                      None \<Rightarrow> Inl (Other_error ''ios_base::failure'')
                    | Some d \<Rightarrow> Inr (DATE_HEADER @ COLON c @ d @ CRLF))
                 else Inr []) (\<lambda>dt.
       let header6 = header5 @ dt;
           header7 = (if parts (base msg) \<noteq> []
                      then header6 @ MIME_VERSION_HEADER @ COLON c @ version (base msg) @ CRLF
                      else header6) in
       bind_err (mime_format_header c (base msg)) (\<lambda>mh.
       Inr (header7 @ mh @ SUBJECT_HEADER @ COLON c @ subject msg @ CRLF @ CRLF)))))))))"

text \<open>
  The loop of \<^verbatim>\<open>message::format\<close> over the parts: the exception thrown if any,
  and \<^verbatim>\<open>message_str\<close> as the loop leaves it.
\<close>

fun format_parts :: "collab \<Rightarrow> bool \<Rightarrow> string \<Rightarrow> mime list \<Rightarrow> string \<Rightarrow> error option \<times> string" where
  "format_parts c dot_escape bnd [] message_str = (None, message_str)"
| "format_parts c dot_escape bnd (p # ps) message_str =
    (case mime_format c dot_escape p of
       Inl e \<Rightarrow> (Some e, message_str)
     | Inr p_str \<Rightarrow>
         format_parts c dot_escape bnd ps (message_str @ ''--'' @ bnd @ CRLF @ p_str @ CRLF))"

text \<open>
  \<^verbatim>\<open>message::format\<close>: the exception thrown if any, and the string
  \<^verbatim>\<open>message_str\<close> after the call.
\<close>

definition format :: "collab \<Rightarrow> bool \<Rightarrow> string \<Rightarrow> message \<Rightarrow> error option \<times> string" where
  "format c dot_escape message_str msg =
    (case format_header c msg of
       Inl e \<Rightarrow> (Some e, message_str)
     | Inr header \<Rightarrow>
        (case format_content c dot_escape (base msg) of
           Inl e \<Rightarrow> (Some e, message_str @ header)
         | Inr cont \<Rightarrow>
            (if parts (base msg) \<noteq> [] then
               (case format_parts c dot_escape (boundary (base msg)) (parts (base msg))
                       (message_str @ header @ cont @ (if cont \<noteq> [] then CRLF else [])) of
                  (Some e, s) \<Rightarrow> (Some e, s)
                | (None, s) \<Rightarrow> (None, s @ ''--'' @ boundary (base msg) @ ''--'' @ CRLF))
             else (None, message_str @ header @ cont))))"

subsection \<open>Parsing an address list\<close>

datatype state_t =
  BEGIN | NAMEADDRGRP | QNAMEADDRBEG | ADDR | NAME | QNAMEADDREND | ADDRBRBEG | ADDRBREND
  | GROUPBEG | GROUPEND | COMMBEG | COMMEND | EOL

text \<open>The local variables of \<^verbatim>\<open>message::parse_address_list\<close>.\<close>

record 'z pstate =
  mail_list :: "'z mail_address_scheme list"
  mail_group_list :: "'z mail_group_of list"
  cur_address :: "'z mail_address_scheme"
  cur_group :: "'z mail_group_of"
  mail_addrs :: "'z mail_address_scheme list"
  state :: state_t
  monkey_found :: bool
  group_found :: bool
  token :: string

text \<open>The variables as declared: empty, \<^verbatim>\<open>BEGIN\<close> and \<^verbatim>\<open>false\<close>; \<open>z\<close> is the
  extension of the empty \<^verbatim>\<open>cur_address\<close>.\<close>

definition pstate_init :: "'z \<Rightarrow> 'z pstate" where
  "pstate_init z =
    \<lparr>mail_list = [], mail_group_list = [],
     cur_address = \<lparr>name = [], address = [], \<dots> = z\<rparr>,
     cur_group = \<lparr>group_name = [], members = []\<rparr>,
     mail_addrs = [], state = BEGIN, monkey_found = False, group_found = False, token = []\<rparr>"

text \<open>\<^verbatim>\<open>isalpha(*ch) || isdigit(*ch) || ATEXT.find(*ch) != string::npos\<close>.\<close>

definition is_atext :: "char \<Rightarrow> bool" where
  "is_atext ch = (isalpha ch \<or> isdigit ch \<or> ch \<in> set ATEXT)"

text \<open>\<^verbatim>\<open>mail_address::clear\<close>, \<^verbatim>\<open>mail_group::clear\<close> and
  \<^verbatim>\<open>mail_group::add\<close> of a vector of addresses.\<close>

definition address_clear :: "'z mail_address_scheme \<Rightarrow> 'z mail_address_scheme" where
  "address_clear a = a\<lparr>name := [], address := []\<rparr>"

definition group_clear :: "'z mail_group_of \<Rightarrow> 'z mail_group_of" where
  "group_clear g = g\<lparr>group_name := [], members := []\<rparr>"

definition group_add :: "'z mail_address_scheme list \<Rightarrow> 'z mail_group_of \<Rightarrow> 'z mail_group_of" where
  "group_add mails g = g\<lparr>members := members g @ mails\<rparr>"

text \<open>
  One function for each \<^verbatim>\<open>case\<close> of the \<^verbatim>\<open>switch\<close>: the chain of tests on the
  character, then the check made when the character is the last one of the input
  (\<open>is_last\<close>: \<^verbatim>\<open>ch == address_list.end() - 1\<close>).
\<close>

definition at_BEGIN :: "bool \<Rightarrow> char \<Rightarrow> 'z pstate \<Rightarrow> error + 'z pstate" where
  "at_BEGIN is_last ch s =
    bind_err
      (if isspace ch then Inr s
       else if is_atext ch then Inr (s\<lparr>token := token s @ [ch], state := NAMEADDRGRP\<rparr>)
       else if ch = QUOTE_CHAR then Inr (s\<lparr>state := QNAMEADDRBEG\<rparr>)
       else if ch = LESS_THAN_CHAR then Inr (s\<lparr>state := ADDRBRBEG\<rparr>)
       else bad_address)
      (\<lambda>s. if is_last then
             (if state s = BEGIN then Inr s
              else if state s = NAMEADDRGRP then
                (if group_found s then bad_address
                 else if token s \<noteq> [] then
                   (let ca = (cur_address s)\<lparr>name := trim (token s)\<rparr>
                    in Inr (s\<lparr>cur_address := ca, mail_list := mail_list s @ [ca]\<rparr>))
                 else Inr s)
              else bad_address)
           else Inr s)"

definition at_NAMEADDRGRP :: "bool \<Rightarrow> char \<Rightarrow> 'z pstate \<Rightarrow> error + 'z pstate" where
  "at_NAMEADDRGRP is_last ch s =
    bind_err
      (if is_atext ch then Inr (s\<lparr>token := token s @ [ch]\<rparr>)
       else if ch = MONKEY_CHAR then
         Inr (s\<lparr>token := token s @ [ch], state := ADDR, monkey_found := True\<rparr>)
       else if isspace ch then Inr (s\<lparr>token := token s @ [ch], state := NAME\<rparr>)
       else if ch = COMMA_CHAR then
         (let ca = (cur_address s)\<lparr>name := trim (token s)\<rparr>
          in Inr (s\<lparr>token := [], mail_addrs := mail_addrs s @ [ca], cur_address := address_clear ca,
                    monkey_found := False, state := BEGIN\<rparr>))
       else if ch = COLON_CHAR then
         (if group_found s then bad_address
          else Inr (s\<lparr>mail_list := mail_list s @ mail_addrs s, mail_addrs := [],
                      cur_group := (cur_group s)\<lparr>group_name := token s\<rparr>, token := [],
                      group_found := True, state := GROUPBEG\<rparr>))
       else bad_address)
      (\<lambda>s. if is_last then
             (if state s = NAMEADDRGRP then
                (if group_found s then bad_address
                 else if token s \<noteq> [] then
                   (let ca = (cur_address s)\<lparr>name := token s\<rparr>;
                        addrs = mail_addrs s @ [ca]
                    in Inr (s\<lparr>cur_address := ca, mail_addrs := addrs,
                              mail_list := mail_list s @ addrs\<rparr>))
                 else Inr s)
              else if state s = ADDR then bad_address
              else if state s = NAME then bad_address
              else if state s = BEGIN then
                (if group_found s then bad_address
                 else Inr (s\<lparr>mail_list := mail_list s @ mail_addrs s\<rparr>))
              else if state s = GROUPBEG then bad_address
              else Inr s)
           else Inr s)"

definition at_NAME :: "bool \<Rightarrow> char \<Rightarrow> 'z pstate \<Rightarrow> error + 'z pstate" where
  "at_NAME is_last ch s =
    bind_err
      (if is_atext ch \<or> isspace ch then Inr (s\<lparr>token := token s @ [ch]\<rparr>)
       else if ch = LESS_THAN_CHAR then
         Inr (s\<lparr>cur_address := (cur_address s)\<lparr>name := trim (token s)\<rparr>, token := [],
                 state := ADDRBRBEG\<rparr>)
       else bad_address)
      (\<lambda>s. if is_last then bad_address else Inr s)"

definition at_ADDR :: "bool \<Rightarrow> char \<Rightarrow> 'z pstate \<Rightarrow> error + 'z pstate" where
  "at_ADDR is_last ch s =
    bind_err
      (if is_atext ch then Inr (s\<lparr>token := token s @ [ch]\<rparr>)
       else if ch = MONKEY_CHAR then Inr (s\<lparr>token := token s @ [ch], monkey_found := True\<rparr>)
       else if isspace ch then Inr s
       else if ch = COMMA_CHAR then
         (let ca = (cur_address s)\<lparr>address := token s\<rparr>
          in if \<not> monkey_found s then bad_address
             else Inr (s\<lparr>token := [], mail_addrs := mail_addrs s @ [ca],
                         cur_address := address_clear ca, monkey_found := False, state := BEGIN\<rparr>))
       else if ch = SEMICOLON_CHAR then
         (if group_found s then
            (let ca = (cur_address s)\<lparr>address := token s\<rparr>;
                 g = group_add (mail_addrs s @ [ca]) (cur_group s)
             in Inr (s\<lparr>token := [], cur_address := address_clear ca, mail_addrs := [],
                       mail_group_list := mail_group_list s @ [g], cur_group := group_clear (cur_group s),
                       group_found := False, state := GROUPEND\<rparr>))
          else bad_address)
       else if ch = LEFT_PARENTHESIS_CHAR then
         (if group_found s then bad_address
          else
            (let ca = (cur_address s)\<lparr>address := token s\<rparr>;
                 addrs = mail_addrs s @ [ca]
             in if \<not> monkey_found s then bad_address
                else Inr (s\<lparr>token := [], mail_addrs := addrs, cur_address := address_clear ca,
                            mail_list := mail_list s @ addrs, state := COMMBEG\<rparr>)))
       else bad_address)
      (\<lambda>s. if is_last then
             (if state s = ADDR then
                (if group_found s then bad_address
                 else if \<not> monkey_found s then bad_address
                 else if token s \<noteq> [] then
                   (let ca = (cur_address s)\<lparr>address := token s\<rparr>;
                        addrs = mail_addrs s @ [ca]
                    in Inr (s\<lparr>cur_address := ca, mail_addrs := addrs,
                              mail_list := mail_list s @ addrs\<rparr>))
                 else Inr s)
              else if state s = BEGIN then
                (if group_found s then bad_address
                 else Inr (s\<lparr>mail_list := mail_list s @ mail_addrs s\<rparr>))
              else if state s = GROUPEND then Inr s
              else if state s = COMMBEG then bad_address
              else Inr s)
           else Inr s)"

definition at_QNAMEADDRBEG :: "string \<Rightarrow> bool \<Rightarrow> char \<Rightarrow> 'z pstate \<Rightarrow> error + 'z pstate" where
  "at_QNAMEADDRBEG qtext is_last ch s =
    bind_err
      (if isalpha ch \<or> isdigit ch \<or> isspace ch \<or> ch \<in> set qtext
       then Inr (s\<lparr>token := token s @ [ch]\<rparr>)
       else if ch = BACKSLASH_CHAR then Inr s
       else if ch = QUOTE_CHAR then
         Inr (s\<lparr>cur_address := (cur_address s)\<lparr>name := token s\<rparr>, token := [],
                 state := QNAMEADDREND\<rparr>)
       else bad_address)
      (\<lambda>s. if is_last then bad_address else Inr s)"

definition at_QNAMEADDREND :: "bool \<Rightarrow> char \<Rightarrow> 'z pstate \<Rightarrow> error + 'z pstate" where
  "at_QNAMEADDREND is_last ch s =
    bind_err
      (if isspace ch then Inr s
       else if ch = LESS_THAN_CHAR then Inr (s\<lparr>state := ADDRBRBEG\<rparr>)
       else bad_address)
      (\<lambda>s. if is_last then bad_address else Inr s)"

definition at_ADDRBRBEG :: "bool \<Rightarrow> char \<Rightarrow> 'z pstate \<Rightarrow> error + 'z pstate" where
  "at_ADDRBRBEG is_last ch s =
    bind_err
      (if is_atext ch then Inr (s\<lparr>token := token s @ [ch]\<rparr>)
       else if ch = MONKEY_CHAR then Inr (s\<lparr>token := token s @ [ch], monkey_found := True\<rparr>)
       else if ch = GREATER_THAN_CHAR then
         (let ca = (cur_address s)\<lparr>address := token s\<rparr>
          in if \<not> monkey_found s then bad_address
             else Inr (s\<lparr>token := [], mail_addrs := mail_addrs s @ [ca],
                         cur_address := address_clear ca, monkey_found := False,
                         state := ADDRBREND\<rparr>))
       else bad_address)
      (\<lambda>s. if is_last then
             (if state s = ADDRBRBEG then bad_address
              else if state s = ADDRBREND then
                (if group_found s then
                   (let g = group_add (mail_addrs s) (cur_group s)
                    in Inr (s\<lparr>cur_group := g, mail_group_list := mail_group_list s @ [g]\<rparr>))
                 else Inr (s\<lparr>mail_list := mail_list s @ mail_addrs s\<rparr>))
              else Inr s)
           else Inr s)"

definition at_ADDRBREND :: "bool \<Rightarrow> char \<Rightarrow> 'z pstate \<Rightarrow> error + 'z pstate" where
  "at_ADDRBREND is_last ch s =
    bind_err
      (if isspace ch then Inr s
       else if ch = COMMA_CHAR then Inr (s\<lparr>state := BEGIN\<rparr>)
       else if ch = SEMICOLON_CHAR then
         (if group_found s then
            (let g = group_add (mail_addrs s) (cur_group s)
             in Inr (s\<lparr>mail_addrs := [], group_found := False,
                       mail_group_list := mail_group_list s @ [g], cur_group := group_clear (cur_group s),
                       state := GROUPEND\<rparr>))
          else bad_address)
       else if ch = LEFT_PARENTHESIS_CHAR then
         (if group_found s then bad_address
          else Inr (s\<lparr>mail_list := mail_list s @ mail_addrs s, state := COMMBEG\<rparr>))
       else Inr s)
      (\<lambda>s. if is_last then
             (if state s = ADDRBREND \<or> state s = BEGIN then
                (if group_found s then bad_address
                 else Inr (s\<lparr>mail_list := mail_list s @ mail_addrs s\<rparr>))
              else if state s = COMMBEG then bad_address
              else Inr s)
           else Inr s)"

definition at_GROUPBEG :: "bool \<Rightarrow> char \<Rightarrow> 'z pstate \<Rightarrow> error + 'z pstate" where
  "at_GROUPBEG is_last ch s =
    bind_err
      (if is_atext ch then Inr (s\<lparr>token := token s @ [ch], state := BEGIN\<rparr>)
       else if isspace ch then Inr s
       else if ch = LESS_THAN_CHAR then Inr (s\<lparr>state := ADDRBRBEG\<rparr>)
       else if ch = SEMICOLON_CHAR then
         (let g = group_add (mail_addrs s) (cur_group s)
          in Inr (s\<lparr>mail_addrs := [], mail_group_list := mail_group_list s @ [g],
                    cur_group := group_clear (cur_group s), group_found := False, state := GROUPEND\<rparr>))
       else Inr s)
      (\<lambda>s. if is_last then
             (if state s = BEGIN \<or> state s = ADDRBRBEG then bad_address else Inr s)
           else Inr s)"

definition at_GROUPEND :: "bool \<Rightarrow> char \<Rightarrow> 'z pstate \<Rightarrow> error + 'z pstate" where
  "at_GROUPEND is_last ch s =
    bind_err
      (if is_atext ch then Inr (s\<lparr>token := token s @ [ch], state := BEGIN\<rparr>)
       else if ch = LEFT_PARENTHESIS_CHAR then Inr (s\<lparr>state := COMMBEG\<rparr>)
       else Inr s)
      (\<lambda>s. if is_last then
             (if state s = BEGIN \<or> state s = COMMBEG then bad_address else Inr s)
           else Inr s)"

definition at_COMMBEG :: "bool \<Rightarrow> char \<Rightarrow> 'z pstate \<Rightarrow> error + 'z pstate" where
  "at_COMMBEG is_last ch s =
    (if is_atext ch \<or> isspace ch then Inr s
     else if ch = RIGHT_PARENTHESIS_CHAR then Inr (s\<lparr>state := COMMEND\<rparr>)
     else bad_address)"

definition at_COMMEND :: "bool \<Rightarrow> char \<Rightarrow> 'z pstate \<Rightarrow> error + 'z pstate" where
  "at_COMMEND is_last ch s = (if isspace ch then Inr s else bad_address)"

definition at_EOL :: "bool \<Rightarrow> char \<Rightarrow> 'z pstate \<Rightarrow> error + 'z pstate" where
  "at_EOL is_last ch s = Inr (s\<lparr>mail_addrs := mail_addrs s @ [cur_address s]\<rparr>)"

text \<open>The body of the \<^verbatim>\<open>for\<close> loop: the \<^verbatim>\<open>switch\<close> on the state.\<close>

definition step :: "string \<Rightarrow> bool \<Rightarrow> char \<Rightarrow> 'z pstate \<Rightarrow> error + 'z pstate" where
  "step qtext is_last ch s =
    (case state s of
       BEGIN \<Rightarrow> at_BEGIN is_last ch s
     | NAMEADDRGRP \<Rightarrow> at_NAMEADDRGRP is_last ch s
     | NAME \<Rightarrow> at_NAME is_last ch s
     | ADDR \<Rightarrow> at_ADDR is_last ch s
     | QNAMEADDRBEG \<Rightarrow> at_QNAMEADDRBEG qtext is_last ch s
     | QNAMEADDREND \<Rightarrow> at_QNAMEADDREND is_last ch s
     | ADDRBRBEG \<Rightarrow> at_ADDRBRBEG is_last ch s
     | ADDRBREND \<Rightarrow> at_ADDRBREND is_last ch s
     | GROUPBEG \<Rightarrow> at_GROUPBEG is_last ch s
     | GROUPEND \<Rightarrow> at_GROUPEND is_last ch s
     | COMMBEG \<Rightarrow> at_COMMBEG is_last ch s
     | COMMEND \<Rightarrow> at_COMMEND is_last ch s
     | EOL \<Rightarrow> at_EOL is_last ch s)"

text \<open>The \<^verbatim>\<open>for\<close> loop over the characters of the input.\<close>

fun run :: "string \<Rightarrow> string \<Rightarrow> 'z pstate \<Rightarrow> error + 'z pstate" where
  "run qtext [] s = Inr s"
| "run qtext (ch # rest) s = bind_err (step qtext (rest = []) ch s) (run qtext rest)"

definition parse_address_list :: "string \<Rightarrow> string \<Rightarrow> error + mailboxes" where
  "parse_address_list qtext address_list =
    bind_err (run qtext address_list (pstate_init ()))
      (\<lambda>s. Inr \<lparr>addresses = mail_list s, groups = mail_group_list s\<rparr>)"

subsection \<open>Marking the addresses the parser stores\<close>

text \<open>
  To follow an address from the place of the text where it is written to the place of the
  result where it is stored, the loop is run on records that carry a mark. Before every
  character the mark of \<^verbatim>\<open>cur_address\<close> is set to the value of \<^verbatim>\<open>group_found\<close>,
  so an address is stored with the mark \<open>True\<close> exactly when the character that completes
  it is read inside a group. The body of the loop is the function \<open>step\<close> above, which
  copies marks and never reads them.
\<close>

definition mark :: "bool pstate \<Rightarrow> bool pstate" where
  "mark s = s\<lparr>cur_address := (cur_address s)\<lparr>mail_address.more := group_found s\<rparr>\<rparr>"

fun run_marked :: "string \<Rightarrow> string \<Rightarrow> bool pstate \<Rightarrow> error + bool pstate" where
  "run_marked qtext [] s = Inr s"
| "run_marked qtext (ch # rest) s =
     bind_err (step qtext (rest = []) ch (mark s)) (run_marked qtext rest)"

definition parse_marked :: "string \<Rightarrow> string \<Rightarrow> error + bool mailboxes_of" where
  "parse_marked qtext address_list =
    bind_err (run_marked qtext address_list (pstate_init False))
      (\<lambda>s. Inr \<lparr>addresses = mail_list s, groups = mail_group_list s\<rparr>)"

text \<open>Removing the marks.\<close>

definition unmark_group :: "'z mail_group_of \<Rightarrow> mail_group" where
  "unmark_group g = \<lparr>group_name = group_name g, members = map mail_address.truncate (members g)\<rparr>"

definition unmark_state :: "'z pstate \<Rightarrow> unit pstate" where
  "unmark_state s =
    \<lparr>mail_list = map mail_address.truncate (mail_list s),
     mail_group_list = map unmark_group (mail_group_list s),
     cur_address = mail_address.truncate (cur_address s),
     cur_group = unmark_group (cur_group s),
     mail_addrs = map mail_address.truncate (mail_addrs s),
     state = state s, monkey_found = monkey_found s, group_found = group_found s,
     token = token s\<rparr>"

definition unmark :: "'z mailboxes_of \<Rightarrow> mailboxes" where
  "unmark mb = \<lparr>addresses = map mail_address.truncate (addresses mb),
                groups = map unmark_group (groups mb)\<rparr>"

definition on_result :: "('a \<Rightarrow> 'b) \<Rightarrow> error + 'a \<Rightarrow> error + 'b" where
  "on_result f x = (case x of Inl e \<Rightarrow> Inl e | Inr v \<Rightarrow> Inr (f v))"

text \<open>
  The invariant of the marked loop: the addresses of the top-level list are unmarked, the
  members of the groups are marked, and the pending addresses carry the value of
  \<^verbatim>\<open>group_found\<close>.
\<close>

definition marks_ok :: "bool pstate \<Rightarrow> bool" where
  "marks_ok s =
    (list_all (\<lambda>a. \<not> mail_address.more a) (mail_list s) \<and>
     list_all (\<lambda>g. list_all mail_address.more (members g)) (mail_group_list s) \<and>
     list_all mail_address.more (members (cur_group s)) \<and>
     list_all (\<lambda>a. mail_address.more a = group_found s) (mail_addrs s) \<and>
     (state s = GROUPBEG \<longrightarrow> group_found s))"

subsection \<open>Parsing a date\<close>

text \<open>
  The regular expression of \<^verbatim>\<open>message::parse_date\<close>,
  \<^verbatim>\<open>([A-Za-z]{3}[\ \t]*,)[\ \t]+(\d{1,2}[\ \t]+[A-Za-z]{3}[\ \t]+\d{4})[\ \t]+(\d{2}:\d{2}:\d{2}[\ \t]+(\+|\-)\d{4}).*\<close>,
  matched against the whole text as \<^verbatim>\<open>regex_match\<close> does. Each piece below takes
  what its part of the expression matches from the front of the text and returns it with
  the rest. Adjacent parts match disjoint sets of characters, so the longest match of each
  repetition is the only one that can succeed.
\<close>

definition blank :: "char \<Rightarrow> bool" where
  "blank c = (c = CHR '' '' \<or> c = CHR 0x09)"

definition rx_exactly :: "(char \<Rightarrow> bool) \<Rightarrow> nat \<Rightarrow> string \<Rightarrow> (string \<times> string) option" where
  "rx_exactly p n s =
    (if n \<le> length s \<and> list_all p (take n s) then Some (take n s, drop n s) else None)"

definition rx_star :: "(char \<Rightarrow> bool) \<Rightarrow> string \<Rightarrow> (string \<times> string) option" where
  "rx_star p s = Some (takeWhile p s, dropWhile p s)"

definition rx_plus :: "(char \<Rightarrow> bool) \<Rightarrow> string \<Rightarrow> (string \<times> string) option" where
  "rx_plus p s = (if takeWhile p s = [] then None else Some (takeWhile p s, dropWhile p s))"

definition rx_char :: "(char \<Rightarrow> bool) \<Rightarrow> string \<Rightarrow> (string \<times> string) option" where
  "rx_char p s = (case s of [] \<Rightarrow> None | x # r \<Rightarrow> if p x then Some ([x], r) else None)"

definition rx_digits_1_2 :: "string \<Rightarrow> (string \<times> string) option" where
  "rx_digits_1_2 s =
    (case rx_exactly isdigit 2 s of Some r \<Rightarrow> Some r | None \<Rightarrow> rx_exactly isdigit 1 s)"

text \<open>One part after another: the texts matched, concatenated, and the rest.\<close>

definition rx_then ::
  "(string \<Rightarrow> (string \<times> string) option) \<Rightarrow> (string \<Rightarrow> (string \<times> string) option) \<Rightarrow>
   string \<Rightarrow> (string \<times> string) option" where
  "rx_then f g s =
    (case f s of None \<Rightarrow> None
     | Some (a, r) \<Rightarrow> (case g r of None \<Rightarrow> None | Some (b, r') \<Rightarrow> Some (a @ b, r')))"

definition rx_group1 :: "string \<Rightarrow> (string \<times> string) option" where
  "rx_group1 = rx_then (rx_exactly isalpha 3) (rx_then (rx_star blank) (rx_char (\<lambda>c. c = CHR '','')))"

definition rx_group2 :: "string \<Rightarrow> (string \<times> string) option" where
  "rx_group2 =
    rx_then rx_digits_1_2 (rx_then (rx_plus blank) (rx_then (rx_exactly isalpha 3)
      (rx_then (rx_plus blank) (rx_exactly isdigit 4))))"

definition rx_group3 :: "string \<Rightarrow> (string \<times> string) option" where
  "rx_group3 =
    rx_then (rx_exactly isdigit 2) (rx_then (rx_char (\<lambda>c. c = CHR '':''))
      (rx_then (rx_exactly isdigit 2) (rx_then (rx_char (\<lambda>c. c = CHR '':''))
        (rx_then (rx_exactly isdigit 2) (rx_then (rx_plus blank)
          (rx_then (rx_char (\<lambda>c. c = CHR ''+'' \<or> c = CHR ''-'')) (rx_exactly isdigit 4)))))))"

text \<open>The match of the whole expression: the sub-matches \<^verbatim>\<open>m[1]\<close>, \<^verbatim>\<open>m[2]\<close>
  and \<^verbatim>\<open>m[3]\<close>; the final \<^verbatim>\<open>.*\<close> takes whatever is left.\<close>

definition date_regex :: "string \<Rightarrow> (string \<times> string \<times> string) option" where
  "date_regex s =
    (case rx_group1 s of None \<Rightarrow> None
     | Some (m1, r1) \<Rightarrow>
        (case rx_plus blank r1 of None \<Rightarrow> None
         | Some (w1, r2) \<Rightarrow>
            (case rx_group2 r2 of None \<Rightarrow> None
             | Some (m2, r3) \<Rightarrow>
                (case rx_plus blank r3 of None \<Rightarrow> None
                 | Some (w2, r4) \<Rightarrow>
                    (case rx_group3 r4 of None \<Rightarrow> None
                     | Some (m3, r5) \<Rightarrow> Some (m1, m2, m3))))))"

text \<open>For the proofs: a part of the expression that matches \<open>n\<close> characters or more.\<close>

definition min_len :: "(string \<Rightarrow> (string \<times> string) option) \<Rightarrow> nat \<Rightarrow> bool" where
  "min_len f n = (\<forall>s a r. f s = Some (a, r) \<longrightarrow> n \<le> length a)"

text \<open>The text handed to the date library: the day padded with a zero when the second
  character of \<^verbatim>\<open>m[2]\<close> is a space, and a colon put into the zone.\<close>

definition dttz :: "string \<Rightarrow> string \<Rightarrow> string \<Rightarrow> string" where
  "dttz m1 m2 m3 =
    m1 @ '' '' @ (if m2 ! 1 = CHR '' '' then ''0'' else []) @ m2 @ '' '' @
    take 12 m3 @ '':'' @ drop 12 m3"

text \<open>\<^verbatim>\<open>message::parse_date\<close>: whatever is thrown inside the \<^verbatim>\<open>try\<close> block is
  caught and thrown again as the one \<^verbatim>\<open>message_error\<close>.\<close>

definition parse_date :: "collab \<Rightarrow> string \<Rightarrow> error + local_date_time" where
  "parse_date c date_str =
    (case date_regex date_str of
       Some (m1, m2, m3) \<Rightarrow>
         (case get_date c (dttz m1 m2 m3) of
            None \<Rightarrow> Inl (Message_error ''Bad date format.'')
          | Some ldt \<Rightarrow> Inr ldt)
     | None \<Rightarrow> Inr Not_a_date_time)"

subsection \<open>Parsing a header line\<close>

text \<open>\<^verbatim>\<open>_version = ...\<close>, a member of the base object.\<close>

definition set_version :: "string \<Rightarrow> mime \<Rightarrow> mime" where
  "set_version v b =
    (case b of Mime ct enc disp nm cont bnd ver ps \<Rightarrow> Mime ct enc disp nm cont bnd v ps)"

text \<open>\<^verbatim>\<open>message::parse_header_line\<close>.\<close>

definition parse_header_line :: "collab \<Rightarrow> string \<Rightarrow> message \<Rightarrow> error + message" where
  "parse_header_line c header_line msg0 =
    bind_err (mime_parse_header_line c header_line (base msg0)) (\<lambda>b.
    let msg = msg0\<lparr>base := b\<rparr> in
    bind_err (parse_header_name_value c header_line) (\<lambda>(header_name, header_value).
      if iequals header_name FROM_HEADER then
        bind_err (parse_address_list (QTEXT c) header_value) (\<lambda>mbx.
          (case addresses mbx of
             [] \<Rightarrow> Inl (Message_error ''Bad sender.'')
           | a # _ \<Rightarrow> Inr (msg\<lparr>sender := a\<rparr>)))
      else if iequals header_name REPLY_TO_HEADER then
        bind_err (parse_address_list (QTEXT c) header_value) (\<lambda>mbx.
          (case addresses mbx of
             [] \<Rightarrow> Inr msg
           | a # _ \<Rightarrow> Inr (msg\<lparr>reply_address := a\<rparr>)))
      else if iequals header_name TO_HEADER then
        bind_err (parse_address_list (QTEXT c) header_value) (\<lambda>mbx. Inr (msg\<lparr>recipients := mbx\<rparr>))
      else if iequals header_name CC_HEADER then
        bind_err (parse_address_list (QTEXT c) header_value) (\<lambda>mbx. Inr (msg\<lparr>cc_recipients := mbx\<rparr>))
      else if iequals header_name SUBJECT_HEADER then
        Inr (msg\<lparr>subject := trim header_value\<rparr>)
      else if iequals header_name DATE_HEADER then
        bind_err (parse_date c (trim header_value)) (\<lambda>dt. Inr (msg\<lparr>date_time := dt\<rparr>))
      else if iequals header_name MIME_VERSION_HEADER then
        Inr (msg\<lparr>base := set_version (trim header_value) (base msg)\<rparr>)
      else Inr msg))"

subsection \<open>Formatting and parsing again\<close>

text \<open>
  Modelled from the spec: the header lines of a formatted message. The reader that cuts
  a message into lines is not in message.cpp. In the spec a header line ends with
  \<^verbatim>\<open>\r\n\<close>, the header block ends at the first empty line, and a folded line is
  joined to the line before it by the reader. \<open>text_lines\<close> cuts a text at every
  \<^verbatim>\<open>\r\n\<close>, and \<open>header_lines\<close> are the lines before the first empty one; no line of
  the headers considered below starts with white space, so that none is a folded line.
  \<open>no_crlf\<close> says that a text has no \<^verbatim>\<open>\r\n\<close> in it, and \<open>joined\<close> is a list of
  lines, each followed by \<^verbatim>\<open>\r\n\<close>.
\<close>

fun text_lines :: "string \<Rightarrow> string list" where
  "text_lines [] = []"
| "text_lines [ch] = [[ch]]"
| "text_lines (ch # ch' # rest) =
    (if [ch, ch'] = CRLF then [] # text_lines rest
     else (case text_lines (ch' # rest) of [] \<Rightarrow> [[ch]] | l # ls \<Rightarrow> (ch # l) # ls))"

definition header_lines :: "string \<Rightarrow> string list" where
  "header_lines s = takeWhile (\<lambda>l. l \<noteq> []) (text_lines s)"

fun no_crlf :: "string \<Rightarrow> bool" where
  "no_crlf (ch # ch' # rest) = ([ch, ch'] \<noteq> CRLF \<and> no_crlf (ch' # rest))"
| "no_crlf [ch] = True"
| "no_crlf [] = True"

definition joined :: "string list \<Rightarrow> string" where
  "joined ls = concat (map (\<lambda>l. l @ CRLF) ls)"

text \<open>
  Header lines given one after another to \<^verbatim>\<open>parse_header_line\<close>, as the reader of a
  message does; the first exception ends it.
\<close>

fun feed :: "collab \<Rightarrow> string list \<Rightarrow> message \<Rightarrow> error + message" where
  "feed c [] msg = Inr msg"
| "feed c (line # rest) msg = bind_err (parse_header_line c line msg) (feed c rest)"

text \<open>
  A message is formatted into an empty string, and the header lines of the text are given
  to \<^verbatim>\<open>parse_header_line\<close> on the message \<open>msg0\<close>. \<open>same_headers\<close> compares the
  sender, the recipients, the subject and the date of two messages.
\<close>

definition parse_back :: "collab \<Rightarrow> bool \<Rightarrow> message \<Rightarrow> message \<Rightarrow> error + message" where
  "parse_back c dot_escape msg msg0 =
    (case format c dot_escape [] msg of
       (Some e, message_str) \<Rightarrow> Inl e
     | (None, message_str) \<Rightarrow> feed c (header_lines message_str) msg0)"

definition same_headers :: "message \<Rightarrow> message \<Rightarrow> bool" where
  "same_headers msg' msg =
    (sender msg' = sender msg \<and> recipients msg' = recipients msg \<and>
     subject msg' = subject msg \<and> date_time msg' = date_time msg)"

text \<open>A text with no white space at either end: \<^verbatim>\<open>trim\<close> leaves it as it is.\<close>

definition trimmed :: "string \<Rightarrow> bool" where
  "trimmed v = (v = [] \<or> \<not> isspace (hd v) \<and> \<not> isspace (last v))"

text \<open>
  The addresses that come back from their formatted text. A display name is written
  without quotes (\<open>plain_name\<close>: letters, digits, blanks and tabs, none of the last two
  at either end) or in quotes (\<open>quoted_name\<close>: it has a character that needs them). A
  mailbox part is not empty, is made of the characters \<^verbatim>\<open>format_address\<close> accepts and
  has an \<^verbatim>\<open>@\<close>. An address with a mailbox part has no name, a plain name or a
  quoted one; an address without a mailbox part has a name of letters and digits only
  (\<open>word_name\<close>).
\<close>

definition plain_name :: "string \<Rightarrow> bool" where
  "plain_name n = (n \<noteq> [] \<and> list_all name_class n \<and> \<not> isspace (hd n) \<and> \<not> isspace (last n))"

definition quoted_name :: "string \<Rightarrow> bool" where
  "quoted_name n = (list_all QTEXT_REGEX n \<and> \<not> list_all name_class n)"

definition word_name :: "string \<Rightarrow> bool" where
  "word_name n = (n \<noteq> [] \<and> list_all (\<lambda>ch. isalpha ch \<or> isdigit ch) n)"

definition mailbox_part :: "string \<Rightarrow> bool" where
  "mailbox_part ad = (ad \<noteq> [] \<and> list_all DTEXT_REGEX ad \<and> MONKEY_CHAR \<in> set ad)"

definition roundtrip_address :: "mail_address \<Rightarrow> bool" where
  "roundtrip_address a =
    (if address a = [] then word_name (name a)
     else mailbox_part (address a) \<and>
          (name a = [] \<or> plain_name (name a) \<or> quoted_name (name a)))"

text \<open>
  The groups that come back. The first member of a group has no name, or an unquoted
  name whose first two characters are letters or digits (\<open>group_first\<close>); the last
  member has a mailbox part. The name of a group is not empty and is made of the
  characters \<^verbatim>\<open>format_mailbox\<close> accepts; the name of a group that is not the first
  one has two characters at least.
\<close>

definition group_first :: "mail_address \<Rightarrow> bool" where
  "group_first a =
    (name a = [] \<or>
     list_all name_class (name a) \<and> 2 \<le> length (name a) \<and> \<not> isspace (name a ! 1))"

definition roundtrip_members :: "mail_address list \<Rightarrow> bool" where
  "roundtrip_members ms =
    (list_all roundtrip_address ms \<and>
     (ms = [] \<or> group_first (hd ms) \<and> address (last ms) \<noteq> []))"

fun roundtrip_groups :: "bool \<Rightarrow> mail_group list \<Rightarrow> bool" where
  "roundtrip_groups first [] = True"
| "roundtrip_groups first (g # gs) =
    (group_name g \<noteq> [] \<and> list_all ATEXT_REGEX (group_name g) \<and>
     (first \<or> 2 \<le> length (group_name g)) \<and>
     roundtrip_members (members g) \<and> roundtrip_groups False gs)"

text \<open>
  The mailboxes that come back. With no group, a last address that is a name of one
  character is the only address. With groups, there is an address before them.
\<close>

definition roundtrip_mailboxes :: "mailboxes \<Rightarrow> bool" where
  "roundtrip_mailboxes mb =
    (list_all roundtrip_address (addresses mb) \<and>
     (if groups mb = [] then
        length (addresses mb) < 2 \<or> address (last (addresses mb)) \<noteq> [] \<or>
        length (name (last (addresses mb))) \<noteq> 1
      else addresses mb \<noteq> [] \<and> roundtrip_groups True (groups mb)))"

text \<open>
  A message as the four setters \<^verbatim>\<open>sender\<close>, \<^verbatim>\<open>add_recipient\<close>, \<^verbatim>\<open>subject\<close>
  and \<^verbatim>\<open>date_time\<close> leave it: no boundary, no part, no reply address, no Cc and no Bcc.
\<close>

definition built_by_setters :: "message \<Rightarrow> bool" where
  "built_by_setters m =
    (boundary (base m) = [] \<and> parts (base m) = [] \<and>
     reply_address m = \<lparr>name = [], address = []\<rparr> \<and>
     mailboxes_empty (cc_recipients m) \<and> mailboxes_empty (bcc_recipients m))"

text \<open>The sender and the recipients come back, and the subject is trimmed and has no
  \<^verbatim>\<open>\r\n\<close> in it.\<close>

definition roundtrip_message :: "message \<Rightarrow> bool" where
  "roundtrip_message m =
    (roundtrip_address (sender m) \<and> roundtrip_mailboxes (recipients m) \<and>
     trimmed (subject m) \<and> no_crlf (subject m))"

text \<open>
  What the result needs of the collaborators, for the lines that \<^verbatim>\<open>format_header\<close>
  writes for the message \<open>m\<close>. \<open>reads_header\<close>: the line made of a header name, the
  separator and a value is split into that name and that value, and
  \<^verbatim>\<open>mime::parse_header_line\<close> does not throw on it. The separator has no carriage
  return, and \<^verbatim>\<open>QTEXT\<close> has the punctuation that \<^verbatim>\<open>format_address\<close> puts in
  quotes, and not the quote itself.
\<close>

definition reads_header :: "collab \<Rightarrow> string \<Rightarrow> string \<Rightarrow> bool" where
  "reads_header c n v =
    (parse_header_name_value c (n @ COLON c @ v) = Inr (n, v) \<and>
     (\<forall>b. \<exists>b'. mime_parse_header_line c (n @ COLON c @ v) b = Inr b'))"

definition collab_roundtrip :: "collab \<Rightarrow> message \<Rightarrow> bool" where
  "collab_roundtrip c m =
    ((\<forall>v. sender_to_string m = Inr v \<longrightarrow> reads_header c FROM_HEADER v) \<and>
     (\<forall>v. recipients_to_string m = Inr v \<longrightarrow> reads_header c TO_HEADER v) \<and>
     (\<forall>v. date_time m \<noteq> Not_a_date_time \<and> put_date c (date_time m) = Some v \<longrightarrow>
        reads_header c DATE_HEADER v) \<and>
     reads_header c SUBJECT_HEADER (subject m) \<and>
     CHR 0x0D \<notin> set (COLON c) \<and>
     (\<forall>ch. QTEXT_REGEX ch \<longrightarrow> isalpha ch \<or> isdigit ch \<or> isspace ch \<or> ch \<in> set (QTEXT c)) \<and>
     QUOTE_CHAR \<notin> set (QTEXT c))"

text \<open>
  A line of \<^verbatim>\<open>mime::format_header\<close>: it is not empty, is not a folded line and has
  no \<^verbatim>\<open>\r\n\<close> in it, \<^verbatim>\<open>mime::parse_header_line\<close> does not throw on it, and its
  name is none of those that \<^verbatim>\<open>message::parse_header_line\<close> stores in the sender,
  the reply address, the recipients, the subject or the date.
\<close>

definition other_header :: "collab \<Rightarrow> string \<Rightarrow> bool" where
  "other_header c l =
    (l \<noteq> [] \<and> \<not> isspace (hd l) \<and> no_crlf l \<and>
     (\<forall>b. \<exists>b'. mime_parse_header_line c l b = Inr b') \<and>
     (\<exists>n v. parse_header_name_value c l = Inr (n, v) \<and>
        \<not> iequals n FROM_HEADER \<and> \<not> iequals n REPLY_TO_HEADER \<and> \<not> iequals n TO_HEADER \<and>
        \<not> iequals n CC_HEADER \<and> \<not> iequals n SUBJECT_HEADER \<and> \<not> iequals n DATE_HEADER))"

text \<open>
  What it needs of the date library, for the date \<open>d\<close> written as \<open>v\<close>: the text is
  trimmed and has no \<^verbatim>\<open>\r\n\<close> in it, the regular expression of \<^verbatim>\<open>parse_date\<close>
  matches it, and the library reads \<open>d\<close> from what \<^verbatim>\<open>parse_date\<close> makes of it.
\<close>

definition date_roundtrip :: "collab \<Rightarrow> local_date_time \<Rightarrow> string \<Rightarrow> bool" where
  "date_roundtrip c d v =
    (d \<noteq> Not_a_date_time \<and> put_date c d = Some v \<and> trimmed v \<and> no_crlf v \<and>
     (\<exists>m1 m2 m3. date_regex v = Some (m1, m2, m3) \<and> get_date c (dttz m1 m2 m3) = Some d))"

text \<open>
  For the proofs. The loop on characters none of which is the last one. The variables
  of the loop while an address is read: \<open>x\<close> gives the lists of addresses and groups
  stored so far, the group being read and \<^verbatim>\<open>group_found\<close>, and the other arguments
  are the state, the addresses not stored yet, the name of \<^verbatim>\<open>cur_address\<close>, the token
  and \<^verbatim>\<open>monkey_found\<close>. \<open>ctx\<close> is such an \<open>x\<close>.
\<close>

fun steps :: "string \<Rightarrow> string \<Rightarrow> 'z pstate \<Rightarrow> error + 'z pstate" where
  "steps qtext [] s = Inr s"
| "steps qtext (ch # rest) s = bind_err (step qtext False ch s) (steps qtext rest)"

definition cst ::
  "unit pstate \<Rightarrow> state_t \<Rightarrow> mail_address list \<Rightarrow> string \<Rightarrow> string \<Rightarrow> bool \<Rightarrow> unit pstate" where
  "cst x k addrs nm tok mf =
    x\<lparr>cur_address := \<lparr>name = nm, address = []\<rparr>, mail_addrs := addrs, state := k,
      monkey_found := mf, token := tok\<rparr>"

definition ctx :: "mail_address list \<Rightarrow> mail_group list \<Rightarrow> mail_group \<Rightarrow> bool \<Rightarrow> unit pstate" where
  "ctx ml gl cg gf =
    \<lparr>mail_list = ml, mail_group_list = gl, cur_address = \<lparr>name = [], address = []\<rparr>,
     cur_group = cg, mail_addrs = [], state = BEGIN, monkey_found = False, group_found = gf,
     token = []\<rparr>"

text \<open>
  The states in which a name can start: \<^verbatim>\<open>BEGIN\<close>, or \<^verbatim>\<open>GROUPBEG\<close> and
  \<^verbatim>\<open>GROUPEND\<close>, which take one character of the name and go to \<^verbatim>\<open>BEGIN\<close>, so
  that the second character must not be white space.
\<close>

definition start_ok :: "state_t \<Rightarrow> string \<Rightarrow> bool" where
  "start_ok k n = (k = BEGIN \<or> (k = GROUPBEG \<or> k = GROUPEND) \<and> 2 \<le> length n \<and> is_atext (n ! 1))"

definition member_start :: "state_t \<Rightarrow> mail_address \<Rightarrow> bool" where
  "member_start k a = (k = BEGIN \<or> k = GROUPBEG \<and> group_first a)"

definition group_start :: "bool \<Rightarrow> state_t" where
  "group_start first = (if first then BEGIN else GROUPEND)"

text \<open>The texts that \<^verbatim>\<open>format_address\<close> and \<^verbatim>\<open>format_mailbox\<close> write for the
  addresses and groups above.\<close>

definition name_prefix :: "mail_address \<Rightarrow> string" where
  "name_prefix a =
    (if name a = [] then []
     else if list_all name_class (name a) then name a @ '' ''
     else [QUOTE_CHAR] @ name a @ [QUOTE_CHAR] @ '' '')"

definition address_text :: "mail_address \<Rightarrow> string" where
  "address_text a =
    (if address a = [] then name a
     else name_prefix a @ [LESS_THAN_CHAR] @ address a @ [GREATER_THAN_CHAR])"

fun addresses_text :: "mail_address list \<Rightarrow> string" where
  "addresses_text [] = []"
| "addresses_text [a] = address_text a"
| "addresses_text (a # b # rest) = address_text a @ '', '' @ addresses_text (b # rest)"

definition separated :: "mail_address list \<Rightarrow> string" where
  "separated as = concat (map (\<lambda>a. address_text a @ '', '') as)"

fun groups_text :: "mail_group list \<Rightarrow> string" where
  "groups_text [] = []"
| "groups_text (g # gs) =
     group_name g @ '': '' @ addresses_text (members g) @
     (if gs \<noteq> [] then ''; '' else '';'') @ groups_text gs"

definition mailbox_text :: "mailboxes \<Rightarrow> string" where
  "mailbox_text mb =
    addresses_text (addresses mb) @ (if groups mb = [] then [] else '', '') @
    groups_text (groups mb)"

subsection \<open>The date library's reader\<close>

text \<open>
  Modelled from the spec: the reader of the date library for the format
  \<^verbatim>\<open>"%a %d %b %Y %H:%M:%S %ZP"\<close>, which is boost's code and not under src/. It reads
  a text of the shape \<^verbatim>\<open>Thu, 17 Jul 2014 10:31:49 +02:00\<close> (the shape
  \<^verbatim>\<open>parse_date\<close> hands over): a weekday abbreviation and one more character, a
  two-digit day, a month abbreviation, a four-digit year, the time of day and the zone's
  offset as a posix zone; \<open>None\<close> when the text has another shape or a field is out of
  range.
\<close>

fun digit_val :: "char \<Rightarrow> nat" where
  "digit_val c = of_char c - 48"

definition number :: "string \<Rightarrow> nat option" where
  "number ds = (if ds \<noteq> [] \<and> list_all isdigit ds
                then Some (foldl (\<lambda>n d. 10 * n + digit_val d) 0 ds) else None)"

definition weekday_names :: "string list" where
  "weekday_names = [''Sun'', ''Mon'', ''Tue'', ''Wed'', ''Thu'', ''Fri'', ''Sat'']"

definition month_names :: "(string \<times> nat) list" where
  "month_names =
    [(''Jan'', 1), (''Feb'', 2), (''Mar'', 3), (''Apr'', 4), (''May'', 5), (''Jun'', 6),
     (''Jul'', 7), (''Aug'', 8), (''Sep'', 9), (''Oct'', 10), (''Nov'', 11), (''Dec'', 12)]"

definition read_date :: "string \<Rightarrow> local_date_time option" where
  "read_date s =
    (if length s \<noteq> 32 then None
     else if take 3 s \<notin> set weekday_names then None
     else if [s ! 4, s ! 7, s ! 11, s ! 16, s ! 25] \<noteq> ''     '' then None
     else if [s ! 19, s ! 22, s ! 29] \<noteq> '':::'' then None
     else if s ! 26 \<noteq> CHR ''+'' \<and> s ! 26 \<noteq> CHR ''-'' then None
     else
       (case (number (take 2 (drop 5 s)), map_of month_names (take 3 (drop 8 s)),
              number (take 4 (drop 12 s)), number (take 2 (drop 17 s)),
              number (take 2 (drop 20 s)), number (take 2 (drop 23 s)),
              number (take 2 (drop 27 s)), number (take 2 (drop 30 s))) of
          (Some d, Some m, Some y, Some hh, Some mi, Some ss, Some zh, Some zm) \<Rightarrow>
            if 1 \<le> d \<and> d \<le> 31 \<and> hh < 24 \<and> mi < 60 \<and> ss < 60 \<and> zm < 60
            then Some (Local_date_time y m d hh mi ss
                   ((if s ! 26 = CHR ''-'' then - 1 else 1) * int (60 * zh + zm)))
            else None
        | _ \<Rightarrow> None))"

subsection \<open>The date library's writer\<close>

text \<open>
  Modelled from the spec: the writer of the date library for the facet
  \<^verbatim>\<open>"%a, %d %b %Y %H:%M:%S %q"\<close>, which is boost's code and not under src/. The
  spec gives the text as \<^verbatim>\<open><Dow>, <DD> <Mon> <YYYY> <HH:MM:SS> <+-HHMM>\<close>. The day of
  the week is computed from the date.
\<close>

definition digits2 :: "nat \<Rightarrow> string" where
  "digits2 n = [char_of (48 + n div 10 mod 10), char_of (48 + n mod 10)]"

definition digits4 :: "nat \<Rightarrow> string" where
  "digits4 n = digits2 (n div 100) @ digits2 (n mod 100)"

definition day_of_week :: "nat \<Rightarrow> nat \<Rightarrow> nat \<Rightarrow> nat" where
  "day_of_week y m d =
    (let y' = (if m < 3 then y - 1 else y)
     in (y' + y' div 4 - y' div 100 + y' div 400 +
         [0, 3, 2, 5, 0, 3, 5, 1, 4, 6, 2, 4] ! (m - 1) + d) mod 7)"

definition write_date :: "local_date_time \<Rightarrow> string option" where
  "write_date ldt =
    (case ldt of
       Not_a_date_time \<Rightarrow> None
     | Local_date_time y m d hh mi ss off \<Rightarrow>
         if 1 \<le> m \<and> m \<le> 12 then
           Some (weekday_names ! day_of_week y m d @ '', '' @ digits2 d @ '' '' @
                 fst (month_names ! (m - 1)) @ '' '' @ digits4 y @ '' '' @
                 digits2 hh @ '':'' @ digits2 mi @ '':'' @ digits2 ss @ '' '' @
                 (if off < 0 then ''-'' else ''+'') @
                 digits2 (nat \<bar>off\<bar> div 60) @ digits2 (nat \<bar>off\<bar> mod 60))
         else None)"

text \<open>The dates the writer and the reader are compared on: the fields in their ranges, the
  year in four digits and the offset in four.\<close>

definition valid_date :: "local_date_time \<Rightarrow> bool" where
  "valid_date ldt =
    (case ldt of
       Not_a_date_time \<Rightarrow> False
     | Local_date_time y m d hh mi ss off \<Rightarrow>
         y < 10000 \<and> 1 \<le> m \<and> m \<le> 12 \<and> 1 \<le> d \<and> d \<le> 31 \<and> hh < 24 \<and> mi < 60 \<and> ss < 60 \<and>
         \<bar>off\<bar> < 6000)"

subsection \<open>An instance of the collaborators\<close>

text \<open>
  Stand-ins for the collaborators, to run the functions above on concrete inputs:
  the separator \<^verbatim>\<open>": "\<close>, a part rendered as its content, no further headers, a
  header line cut at its first colon with the value trimmed, and the reader and the
  writer above.
\<close>

definition split_header :: "string \<Rightarrow> error + string \<times> string" where
  "split_header line =
    (if CHR '':'' \<in> set line
     then Inr (takeWhile (\<lambda>c. c \<noteq> CHR '':'') line,
               trim (drop 1 (dropWhile (\<lambda>c. c \<noteq> CHR '':'') line)))
     else Inl (Other_error ''Parsing failure of header line.''))"

definition sample_collab :: collab where
  "sample_collab =
    \<lparr>COLON = '': '',
     QTEXT = ''!#$%&'' @ [CHR 0x27] @ ''()*+,-.@/:;<=>?[]^_`{|}~'',
     mime_format_header = (\<lambda>b. Inr []),
     format_content = (\<lambda>dot_escape b. Inr (content b)),
     mime_format = (\<lambda>dot_escape p. Inr (content p)),
     mime_parse_header_line = (\<lambda>line b. Inr b),
     parse_header_name_value = split_header,
     put_date = write_date,
     get_date = read_date\<rparr>"

definition empty_mime :: mime where
  "empty_mime =
    Mime \<lparr>media_type = NONE_TYPE, subtype = [], charset = []\<rparr> NONE_ENCODING NONE_DISPOSITION
      [] [] [] ''1.0'' []"

definition empty_message :: message where
  "empty_message =
    \<lparr>base = empty_mime,
     sender = \<lparr>name = [], address = []\<rparr>,
     reply_address = \<lparr>name = [], address = []\<rparr>,
     recipients = \<lparr>addresses = [], groups = []\<rparr>,
     cc_recipients = \<lparr>addresses = [], groups = []\<rparr>,
     bcc_recipients = \<lparr>addresses = [], groups = []\<rparr>,
     subject = [],
     date_time = Not_a_date_time\<rparr>"

text \<open>The same collaborators, with a line of \<^verbatim>\<open>mime::format_header\<close>.\<close>

definition typed_collab :: collab where
  "typed_collab =
    sample_collab\<lparr>mime_format_header := (\<lambda>b. Inr (''Content-Type: text/plain'' @ CRLF))\<rparr>"

text \<open>Messages built with the setters: one that comes back from its header lines, one
  whose subject starts with a space, and one whose subject has a line break in it.\<close>

definition sample_message :: message where
  "sample_message =
    empty_message
      \<lparr>sender := \<lparr>name = ''Alice'', address = ''alice@x.io''\<rparr>,
       recipients :=
         \<lparr>addresses = [\<lparr>name = ''Doe, John'', address = ''jdoe@mailio.dev''\<rparr>,
                       \<lparr>name = [], address = ''jane@mailio.dev''\<rparr>,
                       \<lparr>name = ''Bob'', address = []\<rparr>],
          groups = [\<lparr>group_name = ''Friends'',
                     members = [\<lparr>name = ''Carol'', address = ''carol@x.io''\<rparr>,
                                \<lparr>name = [], address = ''dave@x.io''\<rparr>]\<rparr>,
                    \<lparr>group_name = ''Team'', members = []\<rparr>]\<rparr>,
       subject := ''Hello world'',
       date_time := Local_date_time 2014 7 17 10 31 49 120\<rparr>"

definition spaced_subject_message :: message where
  "spaced_subject_message =
    empty_message\<lparr>sender := \<lparr>name = [], address = ''a@x.io''\<rparr>, subject := '' x''\<rparr>"

definition injected_subject_message :: message where
  "injected_subject_message =
    empty_message\<lparr>sender := \<lparr>name = [], address = ''a@x.io''\<rparr>,
                   subject := ''a'' @ CRLF @ ''From: <evil@x.io>''\<rparr>"

text \<open>A message with one attachment and no content of its own.\<close>

definition one_part_message :: message where
  "one_part_message = attach ''b'' empty_mime ''data'' ''f.txt'' TEXT ''plain'' empty_message"

text \<open>
  The text that claim C9 describes for a message with parts, in the claim's words: the
  header block, the content, a CRLF, each part between its boundary line and a CRLF, and
  the closing boundary.
\<close>

definition claimed_format :: "string \<Rightarrow> string \<Rightarrow> string \<Rightarrow> string list \<Rightarrow> string" where
  "claimed_format header cont bnd rs =
    header @ cont @ CRLF @ concat (map (\<lambda>r. ''--'' @ bnd @ CRLF @ r @ CRLF) rs) @
    ''--'' @ bnd @ ''--'' @ CRLF"

section \<open>Attachments: proofs\<close>

lemma bind_err_Inl [simp]: "bind_err (Inl e) f = Inl e"
  by (simp add: bind_err_def)

lemma bind_err_Inr [simp]: "bind_err (Inr v) f = f v"
  by (simp add: bind_err_def)

lemma count_attachments_filter:
  "count_attachments no ms = no + length (filter (\<lambda>m. content_disposition m = ATTACHMENT) ms)"
  by (induction ms arbitrary: no) auto

lemma attachments_size_parts: "attachments_size msg = length (attachment_parts msg)"
  by (simp add: attachments_size_def attachment_parts_def count_attachments_filter)

lemma attachment_loop_no_le:
  "fst (attachment_loop index no ms s n) \<le> no + length ms"
proof (induction ms arbitrary: no)
  case Nil
  then show ?case by simp
next
  case (Cons m ms)
  have a: "fst (attachment_loop index (no + 1) ms s n) \<le> no + length (m # ms)"
    using Cons [of "no + 1"] by simp
  have b: "fst (attachment_loop index no ms s n) \<le> no + length (m # ms)"
    using Cons [of no] by simp
  show ?case using a b by simp
qed

lemma attachment_loop_found:
  assumes "no < index" "index \<le> no + length (filter (\<lambda>m. content_disposition m = ATTACHMENT) ms)"
  shows "attachment_loop index no ms s n =
    (index, s @ content (filter (\<lambda>m. content_disposition m = ATTACHMENT) ms ! (index - no - 1)),
     mime_name (filter (\<lambda>m. content_disposition m = ATTACHMENT) ms ! (index - no - 1)))"
  using assms
proof (induction ms arbitrary: no)
  case Nil
  then show ?case by simp
next
  case (Cons m ms)
  show ?case
  proof (cases "content_disposition m = ATTACHMENT")
    case False
    with Cons show ?thesis by simp
  next
    case att: True
    show ?thesis
    proof (cases "no + 1 = index")
      case True
      with att show ?thesis by auto
    next
      case False
      with Cons.prems have lt: "no + 1 < index" by simp
      from Cons.prems att have le: "index \<le> (no + 1) + length (filter (\<lambda>m. content_disposition m = ATTACHMENT) ms)"
        by simp
      have idx: "index - Suc no = Suc (index - Suc (Suc no))" using lt by simp
      from Cons.IH [OF lt le] att False show ?thesis by (simp add: idx)
    qed
  qed
qed

lemma attachment_loop_beyond:
  "no + length (filter (\<lambda>m. content_disposition m = ATTACHMENT) ms) < index \<Longrightarrow>
   attachment_loop index no ms s n =
     (no + length (filter (\<lambda>m. content_disposition m = ATTACHMENT) ms), s, n)"
  by (induction ms arbitrary: no) auto

lemma attachment_zero:
  "attachment 0 att_strm att_name msg =
     (Some (Message_error ''No attachment at the given index.''), att_strm, att_name)"
  by (simp add: attachment_def)

lemma attachment_in_range:
  assumes "1 \<le> k" "k \<le> attachments_size msg"
  shows "attachment k att_strm att_name msg =
    (None, att_strm @ content (attachment_parts msg ! (k - 1)),
     mime_name (attachment_parts msg ! (k - 1)))"
proof -
  let ?ps = "parts (base msg)"
  have le: "k \<le> 0 + length (filter (\<lambda>m. content_disposition m = ATTACHMENT) ?ps)"
    using assms(2) by (simp add: attachments_size_parts attachment_parts_def)
  have lt: "0 < k" using assms(1) by simp
  have flt: "length (filter (\<lambda>m. content_disposition m = ATTACHMENT) ?ps) \<le> length ?ps"
    by (rule length_filter_le)
  have k_le: "k \<le> length ?ps"
    using le flt by linarith
  show ?thesis
    using attachment_loop_found [OF lt le, of att_strm att_name] lt k_le
    by (simp add: attachment_def attachment_parts_def)
qed

lemma attachment_beyond:
  assumes "attachments_size msg < k"
  shows "attachment k att_strm att_name msg = (None, att_strm, att_name)"
proof -
  let ?ps = "parts (base msg)"
  have lt: "0 + length (filter (\<lambda>m. content_disposition m = ATTACHMENT) ?ps) < k"
    using assms by (simp add: attachments_size_parts attachment_parts_def)
  have nlt: "\<not> length ?ps < length (filter (\<lambda>m. content_disposition m = ATTACHMENT) ?ps)"
    by (simp add: not_less)
  have "k \<noteq> 0" using assms by simp
  then show ?thesis
    using attachment_loop_beyond [OF lt, of att_strm att_name]
    by (simp add: attachment_def nlt)
qed

text \<open>
  Claim C1. \<^verbatim>\<open>attachment(0, ...)\<close> throws, and an index from 1 to
  \<^verbatim>\<open>attachments_size()\<close> writes the content of that attachment part and returns its
  name (\<open>attachment_zero\<close>, \<open>attachment_in_range\<close>). The claim also says that an index
  past the number of attachments throws. The code does not: the test after the loop
  compares the counter with \<^verbatim>\<open>_parts.size()\<close>, which it never exceeds. For every
  message the index \<^verbatim>\<open>attachments_size() + 1\<close> returns normally, with nothing
  written to the stream and the name left as it was.
\<close>

theorem attachment_past_the_end_returns:
  "attachment (attachments_size msg + 1) att_strm att_name msg = (None, att_strm, att_name)"
  by (rule attachment_beyond) simp

section \<open>attach: the frame\<close>

text \<open>
  Claim C10. Every call of \<^verbatim>\<open>attach\<close> leaves sender, reply address, the three
  recipient collections, subject and date as they were, appends exactly one part (the
  attachment, with the content read, the name and the type given), sets the content type
  to multipart/mixed, keeps a boundary that was not empty and takes a fresh one otherwise.
\<close>

theorem attach_frame:
  "sender (attach fb fm att_strm att_name type subtp msg) = sender msg \<and>
   reply_address (attach fb fm att_strm att_name type subtp msg) = reply_address msg \<and>
   recipients (attach fb fm att_strm att_name type subtp msg) = recipients msg \<and>
   cc_recipients (attach fb fm att_strm att_name type subtp msg) = cc_recipients msg \<and>
   bcc_recipients (attach fb fm att_strm att_name type subtp msg) = bcc_recipients msg \<and>
   subject (attach fb fm att_strm att_name type subtp msg) = subject msg \<and>
   date_time (attach fb fm att_strm att_name type subtp msg) = date_time msg \<and>
   (\<exists>m. parts (base (attach fb fm att_strm att_name type subtp msg)) = parts (base msg) @ [m] \<and>
        content m = att_strm \<and> mime_name m = att_name \<and>
        content_disposition m = ATTACHMENT \<and> content_transfer_encoding m = BASE_64 \<and>
        media_type (content_type m) = type \<and> subtype (content_type m) = subtp) \<and>
   media_type (content_type (base (attach fb fm att_strm att_name type subtp msg))) = MULTIPART \<and>
   subtype (content_type (base (attach fb fm att_strm att_name type subtp msg))) = ''mixed'' \<and>
   (boundary (base msg) \<noteq> [] \<longrightarrow>
      boundary (base (attach fb fm att_strm att_name type subtp msg)) = boundary (base msg)) \<and>
   (boundary (base msg) = [] \<longrightarrow>
      boundary (base (attach fb fm att_strm att_name type subtp msg)) = fb)"
  by (cases "base msg"; cases fm) (simp add: attach_def Let_def)

theorem attach_frame_witness:
  "boundary (base (empty_message\<lparr>base := Mime \<lparr>media_type = MULTIPART, subtype = ''mixed'', charset = []\<rparr>
       NONE_ENCODING NONE_DISPOSITION [] [] ''b1'' ''1.0'' [empty_mime]\<rparr>)) \<noteq> [] \<and>
   boundary (base (attach ''b2'' empty_mime ''data'' ''f.txt'' TEXT ''plain''
     (empty_message\<lparr>base := Mime \<lparr>media_type = MULTIPART, subtype = ''mixed'', charset = []\<rparr>
       NONE_ENCODING NONE_DISPOSITION [] [] ''b1'' ''1.0'' [empty_mime]\<rparr>))) = ''b1'' \<and>
   length (parts (base (attach ''b2'' empty_mime ''data'' ''f.txt'' TEXT ''plain''
     (empty_message\<lparr>base := Mime \<lparr>media_type = MULTIPART, subtype = ''mixed'', charset = []\<rparr>
       NONE_ENCODING NONE_DISPOSITION [] [] ''b1'' ''1.0'' [empty_mime]\<rparr>)))) = 2 \<and>
   boundary (base (attach ''b2'' empty_mime ''data'' ''f.txt'' TEXT ''plain'' empty_message)) = ''b2''"
  using attach_frame [of "''b2''" empty_mime "''data''" "''f.txt''" TEXT "''plain''"
     "empty_message\<lparr>base := Mime \<lparr>media_type = MULTIPART, subtype = ''mixed'', charset = []\<rparr>
       NONE_ENCODING NONE_DISPOSITION [] [] ''b1'' ''1.0'' [empty_mime]\<rparr>"]
    attach_frame [of "''b2''" empty_mime "''data''" "''f.txt''" TEXT "''plain''" empty_message]
  by (auto simp: empty_message_def empty_mime_def)

section \<open>Formatting a message: proofs\<close>

text \<open>
  Claim C4. A message with a boundary whose content type is not multipart is not
  formatted: \<^verbatim>\<open>format_header\<close> throws the error before it builds anything, and
  \<^verbatim>\<open>format\<close> leaves \<^verbatim>\<open>message_str\<close> as it was.
\<close>

theorem format_boundary_not_multipart:
  assumes "boundary (base msg) \<noteq> []" "media_type (content_type (base msg)) \<noteq> MULTIPART"
  shows "format_header c msg = Inl (Message_error ''Non multipart message with boundary.'') \<and>
         format c dot_escape message_str msg =
           (Some (Message_error ''Non multipart message with boundary.''), message_str)"
  using assms by (simp add: format_header_def format_def)

theorem format_boundary_not_multipart_witness:
  "boundary (base (empty_message\<lparr>base := Mime \<lparr>media_type = TEXT, subtype = ''plain'', charset = []\<rparr>
       NONE_ENCODING NONE_DISPOSITION [] ''hello'' ''b1'' ''1.0'' []\<rparr>)) \<noteq> [] \<and>
   media_type (content_type (base (empty_message\<lparr>base := Mime \<lparr>media_type = TEXT, subtype = ''plain'', charset = []\<rparr>
       NONE_ENCODING NONE_DISPOSITION [] ''hello'' ''b1'' ''1.0'' []\<rparr>))) \<noteq> MULTIPART \<and>
   format sample_collab False ''so far''
     (empty_message\<lparr>base := Mime \<lparr>media_type = TEXT, subtype = ''plain'', charset = []\<rparr>
       NONE_ENCODING NONE_DISPOSITION [] ''hello'' ''b1'' ''1.0'' []\<rparr>) =
     (Some (Message_error ''Non multipart message with boundary.''), ''so far'')"
proof -
  let ?m = "empty_message\<lparr>base := Mime \<lparr>media_type = TEXT, subtype = ''plain'', charset = []\<rparr>
       NONE_ENCODING NONE_DISPOSITION [] ''hello'' ''b1'' ''1.0'' []\<rparr>"
  have b: "boundary (base ?m) \<noteq> []" by simp
  have t: "media_type (content_type (base ?m)) \<noteq> MULTIPART" by simp
  show ?thesis
    using format_boundary_not_multipart [OF b t, of sample_collab False "''so far''"] b t
    by simp
qed

text \<open>The header block, when nothing throws: the lines in the order of the statements.\<close>

lemma format_header_layout:
  assumes "boundary (base msg) = [] \<or> media_type (content_type (base msg)) = MULTIPART"
    and "sender_to_string msg = Inr sndr"
    and "name (reply_address msg) \<noteq> [] \<longrightarrow> reply_address_to_string msg = Inr rpl"
    and "recipients_to_string msg = Inr rcp"
    and "\<not> mailboxes_empty (cc_recipients msg) \<longrightarrow> cc_recipients_to_string msg = Inr cc"
    and "\<not> mailboxes_empty (bcc_recipients msg) \<longrightarrow> bcc_recipients_to_string msg = Inr bcc"
    and "date_time msg \<noteq> Not_a_date_time \<longrightarrow> put_date c (date_time msg) = Some dt"
    and "mime_format_header c (base msg) = Inr mh"
  shows "format_header c msg =
    Inr (FROM_HEADER @ COLON c @ sndr @ CRLF @
         (if name (reply_address msg) = [] then [] else REPLY_TO_HEADER @ COLON c @ rpl @ CRLF) @
         TO_HEADER @ COLON c @ rcp @ CRLF @
         (if mailboxes_empty (cc_recipients msg) then [] else CC_HEADER @ COLON c @ cc @ CRLF) @
         (if mailboxes_empty (bcc_recipients msg) then [] else BCC_HEADER @ COLON c @ bcc @ CRLF) @
         (if date_time msg = Not_a_date_time then [] else DATE_HEADER @ COLON c @ dt @ CRLF) @
         (if parts (base msg) = [] then [] else MIME_VERSION_HEADER @ COLON c @ version (base msg) @ CRLF) @
         mh @ SUBJECT_HEADER @ COLON c @ subject msg @ CRLF @ CRLF)"
  using assms by (auto simp: format_header_def Let_def)

text \<open>
  Claim C8. The lines are written in the order of the claim: From, Reply-To, To, Cc, Bcc,
  Date, MIME-Version, the headers of the collaborator, Subject and an empty line. The
  claim also says that the Reply-To line is written whenever the reply address is not
  empty, in particular when it has an address and no display name. The code tests
  \<^verbatim>\<open>_reply_address.name.empty()\<close> only: with an empty name the header is the one of
  a message with no reply address at all, whatever the address is.
\<close>

theorem reply_to_needs_a_name:
  "format_header c (msg\<lparr>reply_address := \<lparr>name = [], address = a\<rparr>\<rparr>) =
   format_header c (msg\<lparr>reply_address := \<lparr>name = [], address = []\<rparr>\<rparr>)"
  by (simp add: format_header_def sender_to_string_def recipients_to_string_def
      cc_recipients_to_string_def bcc_recipients_to_string_def Let_def cong: if_cong)

lemma reply_to_example:
  "format_header sample_collab
     (empty_message\<lparr>sender := \<lparr>name = [], address = ''a@x.io''\<rparr>,
                     reply_address := \<lparr>name = [], address = ''r@x.io''\<rparr>\<rparr>) =
   Inr (''From: <a@x.io>'' @ CRLF @ ''To: '' @ CRLF @ ''Subject: '' @ CRLF @ CRLF)"
  by code_simp

lemma format_parts_rendered:
  "map (mime_format c de) ps = map Inr rs \<Longrightarrow>
   format_parts c de bnd ps acc =
     (None, acc @ concat (map (\<lambda>r. ''--'' @ bnd @ CRLF @ r @ CRLF) rs))"
proof (induction ps arbitrary: rs acc)
  case Nil
  then show ?case by simp
next
  case (Cons p ps)
  then obtain r rs' where rs: "rs = r # rs'" "mime_format c de p = Inr r"
    "map (mime_format c de) ps = map Inr rs'"
    by (cases rs) auto
  from Cons.IH [OF rs(3)] rs(1,2) show ?case by simp
qed

lemma one_part_header:
  "format_header sample_collab one_part_message =
     Inr (''From: '' @ CRLF @ ''To: '' @ CRLF @ ''MIME-Version: 1.0'' @ CRLF @ ''Subject: '' @ CRLF @ CRLF)"
  by code_simp

lemma one_part_base:
  "base one_part_message =
     Mime \<lparr>media_type = MULTIPART, subtype = ''mixed'', charset = []\<rparr>
       NONE_ENCODING NONE_DISPOSITION [] [] ''b'' ''1.0''
       [Mime \<lparr>media_type = TEXT, subtype = ''plain'', charset = []\<rparr> BASE_64 ATTACHMENT
          ''f.txt'' ''data'' [] ''1.0'' []]"
  by code_simp

text \<open>
  Claim C9, as amended. For a message with at least one part whose header block, content
  and parts all render, \<^verbatim>\<open>format\<close> appends the header block, the content, a CRLF
  only if the content is not empty, each part in append order between
  \<^verbatim>\<open>"--" + boundary + CRLF\<close> and a CRLF, and the closing
  \<^verbatim>\<open>"--" + boundary + "--" + CRLF\<close>.
\<close>

theorem format_with_parts:
  assumes "parts (base msg) \<noteq> []"
    and "format_header c msg = Inr header"
    and "format_content c dot_escape (base msg) = Inr cont"
    and "map (mime_format c dot_escape) (parts (base msg)) = map Inr rs"
  shows "format c dot_escape message_str msg =
    (None, message_str @ header @ cont @ (if cont = [] then [] else CRLF) @
       concat (map (\<lambda>r. ''--'' @ boundary (base msg) @ CRLF @ r @ CRLF) rs) @
       ''--'' @ boundary (base msg) @ ''--'' @ CRLF)"
  using assms by (simp add: format_def format_parts_rendered)

theorem format_with_parts_witness:
  "parts (base one_part_message) \<noteq> [] \<and>
   format sample_collab False ''>'' one_part_message =
     (None, ''>From: '' @ CRLF @ ''To: '' @ CRLF @ ''MIME-Version: 1.0'' @ CRLF @ ''Subject: '' @ CRLF @ CRLF @
        ''--b'' @ CRLF @ ''data'' @ CRLF @ ''--b--'' @ CRLF)"
proof -
  have p: "parts (base one_part_message) \<noteq> []" by (simp add: one_part_base)
  have c: "format_content sample_collab False (base one_part_message) = Inr []"
    by (simp add: one_part_base sample_collab_def)
  have r: "map (mime_format sample_collab False) (parts (base one_part_message)) = map Inr [''data'']"
    by (simp add: one_part_base sample_collab_def)
  show ?thesis
    using format_with_parts [OF p one_part_header c r, of "''>''"] p
    by (simp add: one_part_base)
qed

text \<open>
  Claim C9 as stated fails: the message with one attachment and no content of its own is
  formatted without a CRLF between the header block and the first boundary line.
\<close>

theorem format_separator_counterexample:
  "\<not> (\<forall>c dot_escape msg header cont rs.
        parts (base msg) \<noteq> [] \<longrightarrow> format_header c msg = Inr header \<longrightarrow>
        format_content c dot_escape (base msg) = Inr cont \<longrightarrow>
        map (mime_format c dot_escape) (parts (base msg)) = map Inr rs \<longrightarrow>
        format c dot_escape [] msg = (None, claimed_format header cont (boundary (base msg)) rs))"
proof
  assume a: "\<forall>c dot_escape msg header cont rs.
        parts (base msg) \<noteq> [] \<longrightarrow> format_header c msg = Inr header \<longrightarrow>
        format_content c dot_escape (base msg) = Inr cont \<longrightarrow>
        map (mime_format c dot_escape) (parts (base msg)) = map Inr rs \<longrightarrow>
        format c dot_escape [] msg = (None, claimed_format header cont (boundary (base msg)) rs)"
  have p: "parts (base one_part_message) \<noteq> []" by (simp add: one_part_base)
  have c: "format_content sample_collab False (base one_part_message) = Inr []"
    by (simp add: one_part_base sample_collab_def)
  have r: "map (mime_format sample_collab False) (parts (base one_part_message)) = map Inr [''data'']"
    by (simp add: one_part_base sample_collab_def)
  from a p one_part_header c r
  have "format sample_collab False [] one_part_message =
      (None, claimed_format (''From: '' @ CRLF @ ''To: '' @ CRLF @ ''MIME-Version: 1.0'' @ CRLF @ ''Subject: '' @ CRLF @ CRLF)
         [] (boundary (base one_part_message)) [''data''])"
    by blast
  moreover have "format sample_collab False [] one_part_message =
     (None, ''From: '' @ CRLF @ ''To: '' @ CRLF @ ''MIME-Version: 1.0'' @ CRLF @ ''Subject: '' @ CRLF @ CRLF @
        ''--b'' @ CRLF @ ''data'' @ CRLF @ ''--b--'' @ CRLF)"
    by code_simp
  ultimately show False
    by (simp add: claimed_format_def CRLF_def one_part_base)
qed

section \<open>Parsing a date: proofs\<close>

text \<open>The sub-matches \<^verbatim>\<open>m[2]\<close> and \<^verbatim>\<open>m[3]\<close> are long enough for
  \<^verbatim>\<open>m[2].str()[1]\<close> and \<^verbatim>\<open>substr(12)\<close>.\<close>

lemma min_len_exactly: "min_len (rx_exactly p n) n"
  by (auto simp: min_len_def rx_exactly_def split: if_splits)

lemma min_len_plus: "min_len (rx_plus p) 1"
  unfolding min_len_def rx_plus_def
  by (auto split: if_splits simp: Suc_le_eq)

lemma min_len_star: "min_len (rx_star p) 0"
  by (simp add: min_len_def)

lemma min_len_char: "min_len (rx_char p) 1"
  by (auto simp: min_len_def rx_char_def split: list.splits if_splits)

lemma min_len_digits_1_2: "min_len rx_digits_1_2 1"
  using min_len_exactly [of isdigit 2] min_len_exactly [of isdigit 1]
  by (auto simp: min_len_def rx_digits_1_2_def split: option.splits; fastforce)

lemma min_len_then:
  assumes "min_len f n" "min_len g k"
  shows "min_len (rx_then f g) (n + k)"
  using assms
  by (auto simp: min_len_def rx_then_def split: option.splits; fastforce)

lemma min_len_group2: "min_len rx_group2 10"
proof -
  have "min_len rx_group2 (1 + (1 + (3 + (1 + 4))))"
    unfolding rx_group2_def
    by (intro min_len_then min_len_digits_1_2 min_len_plus min_len_exactly)
  then show ?thesis by simp
qed

lemma min_len_group3: "min_len rx_group3 14"
proof -
  have "min_len rx_group3 (2 + (1 + (2 + (1 + (2 + (1 + (1 + 4)))))))"
    unfolding rx_group3_def
    by (intro min_len_then min_len_char min_len_plus min_len_exactly)
  then show ?thesis by simp
qed

lemma date_regex_lengths:
  assumes "date_regex s = Some (m1, m2, m3)"
  shows "10 \<le> length m2 \<and> 14 \<le> length m3"
proof -
  from assms obtain r2 r3 r4 r5 where
    g2: "rx_group2 r2 = Some (m2, r3)" and g3: "rx_group3 r4 = Some (m3, r5)"
    by (auto simp: date_regex_def split: option.splits)
  from g2 min_len_group2 have "10 \<le> length m2" unfolding min_len_def by blast
  moreover from g3 min_len_group3 have "14 \<le> length m3" unfolding min_len_def by blast
  ultimately show ?thesis by simp
qed

text \<open>
  Claim C3, as amended. A text that the regular expression does not match makes
  \<^verbatim>\<open>parse_date\<close> return the value not-a-date-time, without an error. For a text
  that matches, whatever the date library throws while reading is thrown again as the one
  error \<^verbatim>\<open>"Bad date format."\<close>, and otherwise the date read is returned.
\<close>

theorem parse_date_outcomes:
  "(date_regex text = None \<longrightarrow> parse_date c text = Inr Not_a_date_time) \<and>
   (\<forall>m1 m2 m3. date_regex text = Some (m1, m2, m3) \<longrightarrow>
      get_date c (dttz m1 m2 m3) = None \<longrightarrow>
      parse_date c text = Inl (Message_error ''Bad date format.'')) \<and>
   (\<forall>m1 m2 m3 ldt. date_regex text = Some (m1, m2, m3) \<longrightarrow>
      get_date c (dttz m1 m2 m3) = Some ldt \<longrightarrow> parse_date c text = Inr ldt)"
  by (simp add: parse_date_def)

theorem parse_date_outcomes_witness:
  "date_regex ''yesterday'' = None \<and>
   parse_date sample_collab ''yesterday'' = Inr Not_a_date_time \<and>
   date_regex ''Thu, 32 Jul 2014 10:31:49 +0200'' = Some (''Thu,'', ''32 Jul 2014'', ''10:31:49 +0200'') \<and>
   get_date sample_collab (dttz ''Thu,'' ''32 Jul 2014'' ''10:31:49 +0200'') = None \<and>
   parse_date sample_collab ''Thu, 32 Jul 2014 10:31:49 +0200'' = Inl (Message_error ''Bad date format.'') \<and>
   date_regex ''Thu, 17 Jul 2014 10:31:49 +0200'' = Some (''Thu,'', ''17 Jul 2014'', ''10:31:49 +0200'') \<and>
   get_date sample_collab (dttz ''Thu,'' ''17 Jul 2014'' ''10:31:49 +0200'') =
     Some (Local_date_time 2014 7 17 10 31 49 120) \<and>
   parse_date sample_collab ''Thu, 17 Jul 2014 10:31:49 +0200'' =
     Inr (Local_date_time 2014 7 17 10 31 49 120)"
proof -
  have n: "date_regex ''yesterday'' = None" by code_simp
  have m: "date_regex ''Thu, 32 Jul 2014 10:31:49 +0200'' = Some (''Thu,'', ''32 Jul 2014'', ''10:31:49 +0200'')"
    by code_simp
  have g: "get_date sample_collab (dttz ''Thu,'' ''32 Jul 2014'' ''10:31:49 +0200'') = None"
    by code_simp
  have m2: "date_regex ''Thu, 17 Jul 2014 10:31:49 +0200'' = Some (''Thu,'', ''17 Jul 2014'', ''10:31:49 +0200'')"
    by code_simp
  have g2: "get_date sample_collab (dttz ''Thu,'' ''17 Jul 2014'' ''10:31:49 +0200'') =
     Some (Local_date_time 2014 7 17 10 31 49 120)"
    by code_simp
  show ?thesis
    using parse_date_outcomes [of "''yesterday''" sample_collab]
      parse_date_outcomes [of "''Thu, 32 Jul 2014 10:31:49 +0200''" sample_collab]
      parse_date_outcomes [of "''Thu, 17 Jul 2014 10:31:49 +0200''" sample_collab]
      n m g m2 g2
    by blast
qed

text \<open>
  Claim C3 as stated fails: a text that does not match is no error.
\<close>

theorem parse_date_no_match_counterexample:
  "\<not> (\<forall>c text. date_regex text = None \<longrightarrow>
         parse_date c text = Inl (Message_error ''Bad date format.''))"
proof
  assume a: "\<forall>c text. date_regex text = None \<longrightarrow>
         parse_date c text = Inl (Message_error ''Bad date format.'')"
  have n: "date_regex ''yesterday'' = None" by code_simp
  from a n have "parse_date sample_collab ''yesterday'' = Inl (Message_error ''Bad date format.'')"
    by blast
  then show False by (simp add: parse_date_def n)
qed

text \<open>
  Claim C7. Both texts match; the trailing \<^verbatim>\<open>(CET)\<close> is dropped, the day
  \<^verbatim>\<open>7\<close> is padded to \<^verbatim>\<open>07\<close> and the zone becomes \<^verbatim>\<open>+02:00\<close> before the
  text goes to the date library, whose result is returned. With the reader as modelled,
  the results are the 17th and the 7th of July 2014, 10:31:49, two hours east of UTC.
\<close>

theorem parse_date_examples:
  "(\<forall>c. parse_date c ''Thu, 17 Jul 2014 10:31:49 +0200 (CET)'' =
      (case get_date c ''Thu, 17 Jul 2014 10:31:49 +02:00'' of
         None \<Rightarrow> Inl (Message_error ''Bad date format.'') | Some ldt \<Rightarrow> Inr ldt)) \<and>
   (\<forall>c. parse_date c ''Thu, 7 Jul 2014 10:31:49 +0200'' =
      (case get_date c ''Thu, 07 Jul 2014 10:31:49 +02:00'' of
         None \<Rightarrow> Inl (Message_error ''Bad date format.'') | Some ldt \<Rightarrow> Inr ldt)) \<and>
   read_date ''Thu, 17 Jul 2014 10:31:49 +02:00'' = Some (Local_date_time 2014 7 17 10 31 49 120) \<and>
   read_date ''Thu, 07 Jul 2014 10:31:49 +02:00'' = Some (Local_date_time 2014 7 7 10 31 49 120) \<and>
   parse_date sample_collab ''Thu, 17 Jul 2014 10:31:49 +0200 (CET)'' =
     Inr (Local_date_time 2014 7 17 10 31 49 120) \<and>
   parse_date sample_collab ''Thu, 7 Jul 2014 10:31:49 +0200'' =
     Inr (Local_date_time 2014 7 7 10 31 49 120)"
proof -
  have m1: "date_regex ''Thu, 17 Jul 2014 10:31:49 +0200 (CET)'' =
      Some (''Thu,'', ''17 Jul 2014'', ''10:31:49 +0200'')"
    by code_simp
  have m2: "date_regex ''Thu, 7 Jul 2014 10:31:49 +0200'' =
      Some (''Thu,'', ''7 Jul 2014'', ''10:31:49 +0200'')"
    by code_simp
  have d1: "dttz ''Thu,'' ''17 Jul 2014'' ''10:31:49 +0200'' = ''Thu, 17 Jul 2014 10:31:49 +02:00''"
    by code_simp
  have d2: "dttz ''Thu,'' ''7 Jul 2014'' ''10:31:49 +0200'' = ''Thu, 07 Jul 2014 10:31:49 +02:00''"
    by code_simp
  have r1: "read_date ''Thu, 17 Jul 2014 10:31:49 +02:00'' = Some (Local_date_time 2014 7 17 10 31 49 120)"
    by code_simp
  have r2: "read_date ''Thu, 07 Jul 2014 10:31:49 +02:00'' = Some (Local_date_time 2014 7 7 10 31 49 120)"
    by code_simp
  have g: "get_date sample_collab = read_date" by (simp add: sample_collab_def)
  show ?thesis
    by (simp add: parse_date_def m1 m2 d1 d2 r1 r2 g)
qed

section \<open>Parsing an address list: proofs\<close>

text \<open>
  Claim C5. The claim says that after the closing angle bracket anything but white space,
  a comma, a semicolon or an opening parenthesis is a grammar error, and that so is a
  bracketed address without \<^verbatim>\<open>@\<close>. The \<^verbatim>\<open>ADDRBREND\<close> case has no final
  \<^verbatim>\<open>else throw\<close>, so any other character is skipped: \<^verbatim>\<open><a@b.c>x\<close> parses to
  the address \<^verbatim>\<open>a@b.c\<close>. And \<^verbatim>\<open>monkey_found\<close> is not reset when a group ends
  after an unbracketed address, so the bracketed \<^verbatim>\<open><d>\<close> of \<^verbatim>\<open>g:aa@b;c<d>\<close>
  is accepted without an \<^verbatim>\<open>@\<close>.
\<close>

theorem bracket_end_accepts_any_character:
  "parse_address_list q ''<a@b.c>x'' =
     Inr \<lparr>addresses = [\<lparr>name = [], address = ''a@b.c''\<rparr>], groups = []\<rparr> \<and>
   parse_address_list q ''g:aa@b;c<d>'' =
     Inr \<lparr>addresses = [\<lparr>name = [], address = ''cd''\<rparr>],
          groups = [\<lparr>group_name = ''g'', members = [\<lparr>name = [], address = ''aa@b''\<rparr>]\<rparr>]\<rparr>"
  by (simp add: parse_address_list_def pstate_init_def step_def at_BEGIN_def at_ADDRBRBEG_def
      at_ADDRBREND_def at_NAMEADDRGRP_def at_ADDR_def at_GROUPBEG_def at_GROUPEND_def
      is_atext_def isalpha_def isdigit_def isspace_def ATEXT_def bad_address_def
      QUOTE_CHAR_def LESS_THAN_CHAR_def GREATER_THAN_CHAR_def MONKEY_CHAR_def COMMA_CHAR_def
      SEMICOLON_CHAR_def LEFT_PARENTHESIS_CHAR_def COLON_CHAR_def address_clear_def group_clear_def
      group_add_def trim_def)

lemma friends_example:
  "parse_address_list q ''Friends: Alice <alice@x.io>, bob@x.io;'' =
     Inr \<lparr>addresses = [],
          groups = [\<lparr>group_name = ''Friends'',
                     members = [\<lparr>name = ''Alice'', address = ''alice@x.io''\<rparr>,
                                \<lparr>name = [], address = ''bob@x.io''\<rparr>]\<rparr>]\<rparr>"
  by (simp add: parse_address_list_def pstate_init_def step_def at_BEGIN_def at_ADDRBRBEG_def
      at_ADDRBREND_def at_NAMEADDRGRP_def at_NAME_def at_ADDR_def at_GROUPBEG_def at_GROUPEND_def
      is_atext_def isalpha_def isdigit_def isspace_def ATEXT_def bad_address_def
      QUOTE_CHAR_def LESS_THAN_CHAR_def GREATER_THAN_CHAR_def MONKEY_CHAR_def COMMA_CHAR_def
      SEMICOLON_CHAR_def LEFT_PARENTHESIS_CHAR_def COLON_CHAR_def address_clear_def group_clear_def
      group_add_def trim_def)

lemma on_result_simps [simp]:
  "on_result f (Inl e) = Inl e" "on_result f (Inr v) = Inr (f v)"
  by (simp_all add: on_result_def)

lemmas at_defs = at_BEGIN_def at_NAMEADDRGRP_def at_NAME_def at_ADDR_def at_QNAMEADDRBEG_def
  at_QNAMEADDREND_def at_ADDRBRBEG_def at_ADDRBREND_def at_GROUPBEG_def at_GROUPEND_def
  at_COMMBEG_def at_COMMEND_def at_EOL_def

lemma step_unmark:
  "step q l ch (unmark_state s) = on_result unmark_state (step q l ch s)"
  by (cases "state s")
    (simp_all add: step_def at_defs unmark_state_def unmark_group_def bad_address_def
      mail_address.truncate_def address_clear_def group_clear_def group_add_def Let_def
      bind_err_def on_result_def)

lemma unmark_mark: "unmark_state (mark s) = unmark_state s"
  by (simp add: unmark_state_def mark_def mail_address.truncate_def)

lemma step_marks_ok:
  "marks_ok s \<Longrightarrow> step q l ch (mark s) = Inr s' \<Longrightarrow> marks_ok s'"
  by (cases "state s")
    (auto simp: step_def at_defs marks_ok_def mark_def bad_address_def
      address_clear_def group_clear_def group_add_def Let_def bind_err_def
      split: if_splits)


lemma run_unmark:
  "run q cs (unmark_state s) = on_result unmark_state (run_marked q cs s)"
proof (induction cs arbitrary: s)
  case Nil
  then show ?case by simp
next
  case (Cons ch rest)
  have "run q (ch # rest) (unmark_state s) =
      bind_err (step q (rest = []) ch (unmark_state (mark s))) (run q rest)"
    by (simp add: unmark_mark)
  also have "\<dots> = bind_err (on_result unmark_state (step q (rest = []) ch (mark s))) (run q rest)"
    by (simp add: step_unmark)
  also have "\<dots> = on_result unmark_state (run_marked q (ch # rest) s)"
    by (cases "step q (rest = []) ch (mark s)") (simp_all add: Cons.IH)
  finally show ?case .
qed

lemma run_marks_ok:
  "marks_ok s \<Longrightarrow> run_marked q cs s = Inr s' \<Longrightarrow> marks_ok s'"
proof (induction cs arbitrary: s)
  case Nil
  then show ?case by simp
next
  case (Cons ch rest)
  from Cons.prems(2) obtain s1 where
    s1: "step q (rest = []) ch (mark s) = Inr s1" and r: "run_marked q rest s1 = Inr s'"
    by (cases "step q (rest = []) ch (mark s)") simp_all
  from step_marks_ok [OF Cons.prems(1) s1] have "marks_ok s1" .
  from Cons.IH [OF this r] show ?case .
qed

lemma unmark_init: "unmark_state (pstate_init z) = pstate_init ()"
  by (simp add: unmark_state_def pstate_init_def unmark_group_def mail_address.truncate_def)

lemma marks_ok_init: "marks_ok (pstate_init False)"
  by (simp add: marks_ok_def pstate_init_def)

lemma parse_unmark:
  "parse_address_list q input = on_result unmark (parse_marked q input)"
proof -
  have "run q input (pstate_init ()) = on_result unmark_state (run_marked q input (pstate_init False))"
    using run_unmark [of q input "pstate_init False"] by (simp add: unmark_init)
  then show ?thesis
    by (cases "run_marked q input (pstate_init False)")
      (simp_all add: parse_address_list_def parse_marked_def unmark_def unmark_state_def)
qed

lemma parse_marked_marks:
  assumes "parse_marked q input = Inr m"
  shows "list_all (\<lambda>a. \<not> mail_address.more a) (addresses m) \<and>
         list_all (\<lambda>g. list_all mail_address.more (members g)) (groups m)"
proof -
  from assms obtain s where s: "run_marked q input (pstate_init False) = Inr s"
    and m: "m = \<lparr>addresses = mail_list s, groups = mail_group_list s\<rparr>"
    by (cases "run_marked q input (pstate_init False)") (auto simp: parse_marked_def)
  from run_marks_ok [OF marks_ok_init s] show ?thesis
    by (simp add: m marks_ok_def)
qed


lemma marked_example:
  "parse_marked q ''a@b.c, g: <a@b.c>;'' =
     Inr \<lparr>addresses = [\<lparr>name = [], address = ''a@b.c'', \<dots> = False\<rparr>],
          groups = [\<lparr>group_name = ''g'',
                     members = [\<lparr>name = [], address = ''a@b.c'', \<dots> = True\<rparr>]\<rparr>]\<rparr>"
  by (simp add: parse_marked_def pstate_init_def mark_def step_def at_BEGIN_def at_ADDRBRBEG_def
      at_ADDRBREND_def at_NAMEADDRGRP_def at_NAME_def at_ADDR_def at_GROUPBEG_def at_GROUPEND_def
      is_atext_def isalpha_def isdigit_def isspace_def ATEXT_def bad_address_def
      QUOTE_CHAR_def LESS_THAN_CHAR_def GREATER_THAN_CHAR_def MONKEY_CHAR_def COMMA_CHAR_def
      SEMICOLON_CHAR_def LEFT_PARENTHESIS_CHAR_def COLON_CHAR_def address_clear_def group_clear_def
      group_add_def trim_def)



section \<open>Formatting and parsing again: proofs\<close>

subsection \<open>One address\<close>

lemma steps_append: "steps q (xs @ ys) s = bind_err (steps q xs s) (steps q ys)"
  by (induction xs arbitrary: s) (simp_all add: bind_err_def split: sum.splits)

lemma steps_append_Inr: "steps q xs s = Inr s' \<Longrightarrow> steps q (xs @ ys) s = steps q ys s'"
  by (simp add: steps_append)

lemma run_snoc: "run q (xs @ [ch]) s = bind_err (steps q xs s) (step q True ch)"
  by (induction xs arbitrary: s) (simp_all add: bind_err_def split: sum.splits)

lemma run_append: "ys \<noteq> [] \<Longrightarrow> run q (xs @ ys) s = bind_err (steps q xs s) (run q ys)"
  by (induction xs arbitrary: s) (simp_all add: bind_err_def split: sum.splits)

lemma DTEXT_REGEX_cases: "DTEXT_REGEX ch \<longleftrightarrow> is_atext ch \<or> ch = MONKEY_CHAR"
  by (auto simp: DTEXT_REGEX_def is_atext_def ATEXT_def MONKEY_CHAR_def)

lemma ATEXT_REGEX_atext: "ATEXT_REGEX ch \<longleftrightarrow> is_atext ch"
  by (simp add: ATEXT_REGEX_def is_atext_def ATEXT_def)

lemma monkey_not_atext: "\<not> is_atext MONKEY_CHAR"
  by (simp add: is_atext_def ATEXT_def MONKEY_CHAR_def isalpha_def isdigit_def)

lemma atext_not_space: "is_atext ch \<Longrightarrow> \<not> isspace ch"
  by (auto simp: is_atext_def ATEXT_def isalpha_def isdigit_def isspace_def Let_def)

lemma steps_address:
  "list_all DTEXT_REGEX ad \<Longrightarrow>
   steps q ad (cst x ADDRBRBEG xs nm tok mf) =
     Inr (cst x ADDRBRBEG xs nm (tok @ ad) (mf \<or> MONKEY_CHAR \<in> set ad))"
proof (induction ad arbitrary: tok mf)
  case Nil
  then show ?case by simp
next
  case (Cons ch ad)
  from Cons.prems have ad: "list_all DTEXT_REGEX ad" and "DTEXT_REGEX ch"
    by simp_all
  then have ch: "is_atext ch \<or> ch = MONKEY_CHAR"
    by (simp add: DTEXT_REGEX_cases)
  have "step q False ch (cst x ADDRBRBEG xs nm tok mf) =
      Inr (cst x ADDRBRBEG xs nm (tok @ [ch]) (mf \<or> MONKEY_CHAR = ch))"
    using ch monkey_not_atext by (auto simp: step_def at_ADDRBRBEG_def cst_def)
  then show ?case
    using Cons.IH [OF ad, of "tok @ [ch]" "mf \<or> MONKEY_CHAR = ch"] by simp
qed

lemma greater_than_facts:
  "\<not> is_atext GREATER_THAN_CHAR" "GREATER_THAN_CHAR \<noteq> MONKEY_CHAR" "\<not> isspace GREATER_THAN_CHAR"
  by (simp_all add: is_atext_def ATEXT_def GREATER_THAN_CHAR_def MONKEY_CHAR_def isalpha_def
      isdigit_def isspace_def)

lemma step_close:
  "step q False GREATER_THAN_CHAR (cst x ADDRBRBEG xs nm tok True) =
     Inr (cst x ADDRBREND (xs @ [\<lparr>name = nm, address = tok\<rparr>]) [] [] False)"
  by (simp add: step_def at_ADDRBRBEG_def cst_def greater_than_facts address_clear_def)

lemma step_close_last:
  "\<not> group_found x \<Longrightarrow>
   step q True GREATER_THAN_CHAR (cst x ADDRBRBEG xs nm tok True) =
     Inr ((cst x ADDRBREND (xs @ [\<lparr>name = nm, address = tok\<rparr>]) [] [] False)
            \<lparr>mail_list := mail_list x @ xs @ [\<lparr>name = nm, address = tok\<rparr>]\<rparr>)"
  by (simp add: step_def at_ADDRBRBEG_def cst_def greater_than_facts address_clear_def)

lemma steps_separator:
  "steps q '', '' (cst x ADDRBREND xs [] [] False) = Inr (cst x BEGIN xs [] [] False)"
  by (simp add: step_def at_ADDRBREND_def at_BEGIN_def cst_def COMMA_CHAR_def isspace_def)

lemma less_than_facts:
  "\<not> is_atext LESS_THAN_CHAR" "\<not> isspace LESS_THAN_CHAR" "LESS_THAN_CHAR \<noteq> QUOTE_CHAR"
  by (simp_all add: is_atext_def isalpha_def isdigit_def isspace_def ATEXT_def
      LESS_THAN_CHAR_def QUOTE_CHAR_def)

lemma step_open:
  "k = BEGIN \<or> k = GROUPBEG \<Longrightarrow>
   step q False LESS_THAN_CHAR (cst x k xs [] [] False) = Inr (cst x ADDRBRBEG xs [] [] False)"
  by (auto simp: step_def at_BEGIN_def at_GROUPBEG_def cst_def less_than_facts)

lemma step_head:
  "is_atext ch \<Longrightarrow>
   step q False ch (cst x BEGIN xs nm tok mf) = Inr (cst x NAMEADDRGRP xs nm (tok @ [ch]) mf)"
  by (simp add: step_def at_BEGIN_def cst_def atext_not_space)

lemma step_head_group:
  "is_atext ch \<Longrightarrow> k = GROUPBEG \<or> k = GROUPEND \<Longrightarrow>
   step q False ch (cst x k xs nm tok mf) = Inr (cst x BEGIN xs nm (tok @ [ch]) mf)"
  by (auto simp: step_def at_GROUPBEG_def at_GROUPEND_def cst_def)

lemma steps_atext:
  "list_all is_atext cs \<Longrightarrow>
   steps q cs (cst x NAMEADDRGRP xs nm tok mf) = Inr (cst x NAMEADDRGRP xs nm (tok @ cs) mf)"
proof (induction cs arbitrary: tok)
  case Nil
  then show ?case by simp
next
  case (Cons ch cs)
  then have "step q False ch (cst x NAMEADDRGRP xs nm tok mf) =
      Inr (cst x NAMEADDRGRP xs nm (tok @ [ch]) mf)"
    by (simp add: step_def at_NAMEADDRGRP_def cst_def)
  with Cons show ?case by simp
qed

lemma steps_head:
  assumes "n \<noteq> []" "is_atext (hd n)" "start_ok k n"
  shows "\<exists>pre cs. n = pre @ cs \<and> pre \<noteq> [] \<and> list_all is_atext pre \<and>
    steps q pre (cst x k xs [] [] False) = Inr (cst x NAMEADDRGRP xs [] pre False)"
proof (cases "k = BEGIN")
  case True
  from assms(1) obtain ch cs where n: "n = ch # cs" by (cases n) auto
  with assms(2) have a: "is_atext ch" by simp
  have "steps q [ch] (cst x BEGIN xs [] [] False) = Inr (cst x NAMEADDRGRP xs [] [ch] False)"
    using step_head [OF a, of q x xs "[]" "[]" False] by simp
  with n a True show ?thesis by (intro exI [of _ "[ch]"] exI [of _ cs]) simp
next
  case False
  with assms(3) have k: "k = GROUPBEG \<or> k = GROUPEND" and l: "2 \<le> length n" and s: "is_atext (n ! 1)"
    by (auto simp: start_ok_def)
  from l obtain c1 c2 cs where n: "n = c1 # c2 # cs"
    by (cases n; cases "tl n") auto
  with assms(2) s have a1: "is_atext c1" and a2: "is_atext c2" by simp_all
  have "steps q [c1, c2] (cst x k xs [] [] False) = Inr (cst x NAMEADDRGRP xs [] [c1, c2] False)"
    using step_head_group [OF a1 k, of q x xs "[]" "[]" False]
      step_head [OF a2, of q x xs "[]" "[c1]" False] by simp
  with n a1 a2 show ?thesis by (intro exI [of _ "[c1, c2]"] exI [of _ cs]) simp
qed


lemma trim_snoc_space:
  assumes "n \<noteq> []" "\<not> isspace (hd n)" "\<not> isspace (last n)"
  shows "trim (n @ '' '') = n"
proof -
  from assms(1,2) have a: "dropWhile isspace (n @ '' '') = n @ '' ''"
    by (cases n) simp_all
  have sp: "isspace CHR '' ''" by (simp add: isspace_def)
  from assms(1,3) have b: "dropWhile isspace (rev n) = rev n"
    by (cases "rev n") (simp_all add: last_rev [symmetric] hd_rev)
  show ?thesis by (simp add: trim_def a b sp)
qed

lemma trim_trimmed:
  assumes "v = [] \<or> \<not> isspace (hd v) \<and> \<not> isspace (last v)"
  shows "trim v = v"
proof (cases "v = []")
  case True
  then show ?thesis by (simp add: trim_def)
next
  case False
  with assms have h: "\<not> isspace (hd v)" and l: "\<not> isspace (last v)" by simp_all
  from False h have a: "dropWhile isspace v = v" by (cases v) simp_all
  from False l have b: "dropWhile isspace (rev v) = rev v"
    by (cases "rev v") (simp_all add: hd_rev)
  show ?thesis by (simp add: trim_def a b)
qed

lemma alnum_not_space: "isalpha ch \<or> isdigit ch \<Longrightarrow> \<not> isspace ch"
  by (auto simp: isalpha_def isdigit_def isspace_def Let_def)

lemma alnum_atext: "isalpha ch \<or> isdigit ch \<Longrightarrow> is_atext ch"
  by (auto simp: is_atext_def)

lemma blank_facts:
  "\<not> is_atext CHR '' ''" "isspace CHR '' ''" "CHR '' '' \<noteq> MONKEY_CHAR"
  "\<not> is_atext (CHR 0x09)" "isspace (CHR 0x09)" "CHR 0x09 \<noteq> MONKEY_CHAR"
  by (simp_all add: is_atext_def isalpha_def isdigit_def isspace_def ATEXT_def MONKEY_CHAR_def)

lemma name_class_cases:
  assumes "name_class ch"
  shows "is_atext ch \<and> \<not> isspace ch \<or> \<not> is_atext ch \<and> isspace ch \<and> ch \<noteq> MONKEY_CHAR"
proof -
  from assms consider "isalpha ch \<or> isdigit ch" | "ch = CHR '' ''" | "ch = CHR 0x09"
    by (auto simp: name_class_def)
  then show ?thesis
  proof cases
    case 1
    then show ?thesis using alnum_not_space alnum_atext by blast
  next
    case 2
    then show ?thesis using blank_facts by simp
  next
    case 3
    then show ?thesis using blank_facts by simp
  qed
qed

lemma name_class_atext: "name_class ch \<Longrightarrow> \<not> isspace ch \<Longrightarrow> is_atext ch"
  using name_class_cases by blast

lemma step_name_char:
  assumes "name_class ch" "k = NAMEADDRGRP \<or> k = NAME"
  shows "step q False ch (cst x k xs nm tok mf) =
    Inr (cst x (if k = NAME \<or> isspace ch then NAME else NAMEADDRGRP) xs nm (tok @ [ch]) mf)"
proof -
  from name_class_cases [OF assms(1)]
  consider "is_atext ch" "\<not> isspace ch" | "\<not> is_atext ch" "isspace ch" "ch \<noteq> MONKEY_CHAR"
    by blast
  then show ?thesis
  proof cases
    case 1
    with assms(2) show ?thesis
      by (auto simp: step_def at_NAMEADDRGRP_def at_NAME_def cst_def)
  next
    case 2
    with assms(2) show ?thesis
      by (auto simp: step_def at_NAMEADDRGRP_def at_NAME_def cst_def)
  qed
qed

lemma steps_name_chars:
  "list_all name_class cs \<Longrightarrow> k = NAMEADDRGRP \<or> k = NAME \<Longrightarrow>
   \<exists>k'. (k' = NAMEADDRGRP \<or> k' = NAME) \<and>
     steps q cs (cst x k xs nm tok mf) = Inr (cst x k' xs nm (tok @ cs) mf)"
proof (induction cs arbitrary: k tok)
  case Nil
  then show ?case by auto
next
  case (Cons ch cs)
  from Cons.prems have cs: "list_all name_class cs" and ch: "name_class ch" by simp_all
  let ?k1 = "if k = NAME \<or> isspace ch then NAME else NAMEADDRGRP"
  have k1: "?k1 = NAMEADDRGRP \<or> ?k1 = NAME" by simp
  from Cons.IH [OF cs k1, of "tok @ [ch]"] obtain k' where
    k': "k' = NAMEADDRGRP \<or> k' = NAME"
    and r: "steps q cs (cst x ?k1 xs nm (tok @ [ch]) mf) = Inr (cst x k' xs nm ((tok @ [ch]) @ cs) mf)"
    by blast
  have "steps q (ch # cs) (cst x k xs nm tok mf) = Inr (cst x k' xs nm (tok @ ch # cs) mf)"
    using step_name_char [OF ch Cons.prems(2), of q x xs nm tok mf] r by simp
  with k' show ?case by blast
qed

lemma step_name_open:
  "step q False LESS_THAN_CHAR (cst x NAME xs nm tok mf) = Inr (cst x ADDRBRBEG xs (trim tok) [] mf)"
  by (simp add: step_def at_NAME_def cst_def less_than_facts)

lemma name_class_space: "name_class CHR '' ''"
  by (simp add: name_class_def)

lemma plain_name_hd: "plain_name n \<Longrightarrow> n \<noteq> [] \<and> is_atext (hd n)"
  by (cases n) (auto simp: plain_name_def name_class_atext)

lemma steps_plain_name:
  assumes p: "plain_name n" and k: "start_ok k n"
  shows "steps q (n @ '' '' @ [LESS_THAN_CHAR]) (cst x k xs [] [] False) =
    Inr (cst x ADDRBRBEG xs n [] False)"
proof -
  from p have ne: "n \<noteq> []" and h: "is_atext (hd n)" and cls: "list_all name_class n"
    and hn: "\<not> isspace (hd n)" and l: "\<not> isspace (last n)"
    using plain_name_hd by (auto simp: plain_name_def)
  from steps_head [OF ne h k, of q x xs] obtain pre cs where
    n: "n = pre @ cs" and pre: "pre \<noteq> []"
    and first: "steps q pre (cst x k xs [] [] False) = Inr (cst x NAMEADDRGRP xs [] pre False)"
    by blast
  from cls n have "list_all name_class cs" by simp
  from steps_name_chars [OF this, of NAMEADDRGRP q x xs "[]" pre False]
  obtain k' where k': "k' = NAMEADDRGRP \<or> k' = NAME"
    and rest: "steps q cs (cst x NAMEADDRGRP xs [] pre False) = Inr (cst x k' xs [] n False)"
    by (auto simp: n)
  have sp: "step q False CHR '' '' (cst x k' xs [] n False) = Inr (cst x NAME xs [] (n @ '' '') False)"
    using step_name_char [OF name_class_space k', of q x xs "[]" n False] blank_facts by simp
  have body: "steps q n (cst x k xs [] [] False) = Inr (cst x k' xs [] n False)"
    using steps_append_Inr [OF first, of cs] rest by (simp add: n)
  have "steps q (n @ '' '' @ [LESS_THAN_CHAR]) (cst x k xs [] [] False) =
      bind_err (steps q n (cst x k xs [] [] False)) (steps q ('' '' @ [LESS_THAN_CHAR]))"
    by (rule steps_append)
  also have "\<dots> = Inr (cst x ADDRBRBEG xs (trim (n @ '' '')) [] False)"
    by (simp add: body sp step_name_open)
  finally have r: "steps q (n @ '' '' @ [LESS_THAN_CHAR]) (cst x k xs [] [] False) =
      Inr (cst x ADDRBRBEG xs (trim (n @ '' '')) [] False)" .
  have t: "trim (n @ '' '') = n" by (rule trim_snoc_space [OF ne hn l])
  from r show ?thesis by (simp only: t)
qed

lemma quote_facts:
  "\<not> is_atext QUOTE_CHAR" "\<not> isspace QUOTE_CHAR" "\<not> isalpha QUOTE_CHAR" "\<not> isdigit QUOTE_CHAR"
  "QUOTE_CHAR \<noteq> BACKSLASH_CHAR"
  by (simp_all add: is_atext_def isalpha_def isdigit_def isspace_def ATEXT_def
      QUOTE_CHAR_def BACKSLASH_CHAR_def)

lemma steps_quoted_chars:
  assumes "\<forall>ch. QTEXT_REGEX ch \<longrightarrow> isalpha ch \<or> isdigit ch \<or> isspace ch \<or> ch \<in> set q"
  shows "list_all QTEXT_REGEX cs \<Longrightarrow>
    steps q cs (cst x QNAMEADDRBEG xs nm tok mf) = Inr (cst x QNAMEADDRBEG xs nm (tok @ cs) mf)"
proof (induction cs arbitrary: tok)
  case Nil
  then show ?case by simp
next
  case (Cons ch cs)
  from Cons.prems have cs: "list_all QTEXT_REGEX cs" and ch: "QTEXT_REGEX ch" by simp_all
  from assms ch have "isalpha ch \<or> isdigit ch \<or> isspace ch \<or> ch \<in> set q" by blast
  then have "step q False ch (cst x QNAMEADDRBEG xs nm tok mf) =
      Inr (cst x QNAMEADDRBEG xs nm (tok @ [ch]) mf)"
    by (simp add: step_def at_QNAMEADDRBEG_def cst_def)
  with Cons.IH [OF cs, of "tok @ [ch]"] show ?case by simp
qed

lemma steps_quoted_name:
  assumes q: "\<forall>ch. QTEXT_REGEX ch \<longrightarrow> isalpha ch \<or> isdigit ch \<or> isspace ch \<or> ch \<in> set q"
    and nq: "QUOTE_CHAR \<notin> set q"
    and n: "list_all QTEXT_REGEX n"
  shows "steps q ([QUOTE_CHAR] @ n @ [QUOTE_CHAR] @ '' '' @ [LESS_THAN_CHAR]) (cst x BEGIN xs [] [] False) =
    Inr (cst x ADDRBRBEG xs n [] False)"
proof -
  have f1: "steps q [QUOTE_CHAR] (cst x BEGIN xs [] [] False) = Inr (cst x QNAMEADDRBEG xs [] [] False)"
    by (simp add: step_def at_BEGIN_def cst_def quote_facts)
  have body: "steps q n (cst x QNAMEADDRBEG xs [] [] False) = Inr (cst x QNAMEADDRBEG xs [] n False)"
    using steps_quoted_chars [OF q n, of x xs "[]" "[]" False] by simp
  have c1: "steps q [QUOTE_CHAR] (cst x QNAMEADDRBEG xs [] n False) = Inr (cst x QNAMEADDREND xs n [] False)"
    using nq by (simp add: step_def at_QNAMEADDRBEG_def cst_def quote_facts)
  have tail: "steps q ('' '' @ [LESS_THAN_CHAR]) (cst x QNAMEADDREND xs n [] False) =
      Inr (cst x ADDRBRBEG xs n [] False)"
    by (simp add: step_def at_QNAMEADDREND_def cst_def blank_facts less_than_facts)
  have "steps q ([QUOTE_CHAR] @ n @ [QUOTE_CHAR] @ '' '' @ [LESS_THAN_CHAR]) (cst x BEGIN xs [] [] False) =
      steps q (n @ [QUOTE_CHAR] @ '' '' @ [LESS_THAN_CHAR]) (cst x QNAMEADDRBEG xs [] [] False)"
    by (rule steps_append_Inr [OF f1])
  also have "\<dots> = steps q ([QUOTE_CHAR] @ '' '' @ [LESS_THAN_CHAR]) (cst x QNAMEADDRBEG xs [] n False)"
    by (rule steps_append_Inr [OF body])
  also have "\<dots> = steps q ('' '' @ [LESS_THAN_CHAR]) (cst x QNAMEADDREND xs n [] False)"
    by (rule steps_append_Inr [OF c1])
  also note tail
  finally show ?thesis .
qed

lemma address_eta: "\<lparr>name = name a, address = address a\<rparr> = (a :: mail_address)"
  by (cases a) simp

text \<open>An address with a mailbox part, up to its closing bracket.\<close>

lemma steps_bracketed:
  assumes q: "\<forall>ch. QTEXT_REGEX ch \<longrightarrow> isalpha ch \<or> isdigit ch \<or> isspace ch \<or> ch \<in> set q"
    and nq: "QUOTE_CHAR \<notin> set q"
    and a: "roundtrip_address a" and ne: "address a \<noteq> []" and k: "member_start k a"
  shows "steps q (name_prefix a @ [LESS_THAN_CHAR] @ address a) (cst x k xs [] [] False) =
    Inr (cst x ADDRBRBEG xs (name a) (address a) True)"
proof -
  from a ne have ad: "list_all DTEXT_REGEX (address a)" and mk: "MONKEY_CHAR \<in> set (address a)"
    and nm: "name a = [] \<or> plain_name (name a) \<or> quoted_name (name a)"
    by (simp_all add: roundtrip_address_def mailbox_part_def)
  from k have kk: "k = BEGIN \<or> k = GROUPBEG" by (auto simp: member_start_def)
  have pre: "steps q (name_prefix a @ [LESS_THAN_CHAR]) (cst x k xs [] [] False) =
      Inr (cst x ADDRBRBEG xs (name a) [] False)"
  proof -
    from nm consider "name a = []" | "plain_name (name a)" | "quoted_name (name a)" by blast
    then show ?thesis
    proof cases
      case 1
      then show ?thesis using step_open [OF kk, of q x xs] by (simp add: name_prefix_def)
    next
      case 2
      then have p: "name_prefix a = name a @ '' ''"
        by (auto simp: name_prefix_def plain_name_def)
      from 2 have ne2: "name a \<noteq> []" by (simp add: plain_name_def)
      have s: "start_ok k (name a)"
      proof (cases "k = BEGIN")
        case True
        then show ?thesis by (simp add: start_ok_def)
      next
        case False
        with k ne2 have g: "list_all name_class (name a)" "2 \<le> length (name a)"
            "\<not> isspace (name a ! 1)"
          by (auto simp: member_start_def group_first_def)
        from g(1,2) have "name_class (name a ! 1)" by (simp add: list_all_length)
        from this g(3) have "is_atext (name a ! 1)" by (rule name_class_atext)
        with g(2) kk show ?thesis by (auto simp: start_ok_def)
      qed
      from steps_plain_name [OF 2 s, of q x xs] show ?thesis by (simp add: p)
    next
      case 3
      then have p: "name_prefix a = [QUOTE_CHAR] @ name a @ [QUOTE_CHAR] @ '' ''"
        and n: "list_all QTEXT_REGEX (name a)" and nn: "\<not> list_all name_class (name a)"
        by (auto simp: name_prefix_def quoted_name_def)
      from nn have "name a \<noteq> []" by auto
      with k nn have "k = BEGIN" by (auto simp: member_start_def group_first_def)
      with steps_quoted_name [OF q nq n, of x xs] show ?thesis by (simp add: p)
    qed
  qed
  have "steps q (name_prefix a @ [LESS_THAN_CHAR] @ address a) (cst x k xs [] [] False) =
      steps q (address a) (cst x ADDRBRBEG xs (name a) [] False)"
    using steps_append_Inr [OF pre, of "address a"] by simp
  also have "\<dots> = Inr (cst x ADDRBRBEG xs (name a) (address a) True)"
    using steps_address [OF ad, of q x xs "name a" "[]" False] mk by simp
  finally show ?thesis .
qed

lemma word_name_facts:
  assumes "word_name n"
  shows "n \<noteq> []" "list_all is_atext n" "trim n = n" "list_all name_class n"
proof -
  from assms show ne: "n \<noteq> []" by (simp add: word_name_def)
  from assms have al: "list_all (\<lambda>ch. isalpha ch \<or> isdigit ch) n" by (simp add: word_name_def)
  then show "list_all is_atext n" by (simp add: list_all_iff alnum_atext)
  from al show "list_all name_class n" by (auto simp: list_all_iff name_class_def)
  from al ne have "\<not> isspace (hd n)" "\<not> isspace (last n)"
    by (simp_all add: list_all_iff alnum_not_space)
  then show "trim n = n" by (simp add: trim_trimmed)
qed

text \<open>A name with no mailbox part or the name of a group, up to its last character.\<close>

lemma steps_word:
  assumes ne: "n \<noteq> []" and at: "list_all is_atext n" and k: "start_ok k n"
  shows "steps q n (cst x k xs [] [] False) = Inr (cst x NAMEADDRGRP xs [] n False)"
proof -
  from ne at have h: "is_atext (hd n)" by (cases n) simp_all
  from steps_head [OF ne h k, of q x xs] obtain pre cs where
    n: "n = pre @ cs"
    and first: "steps q pre (cst x k xs [] [] False) = Inr (cst x NAMEADDRGRP xs [] pre False)"
    by blast
  from at n have "list_all is_atext cs" by simp
  from steps_atext [OF this, of q x xs "[]" pre False] steps_append_Inr [OF first, of cs]
  show ?thesis by (simp add: n)
qed

lemma steps_word_separator:
  "steps q '', '' (cst x NAMEADDRGRP xs [] n False) =
     Inr (cst x BEGIN (xs @ [\<lparr>name = trim n, address = []\<rparr>]) [] [] False)"
  by (simp add: step_def at_NAMEADDRGRP_def at_BEGIN_def cst_def COMMA_CHAR_def isspace_def
      is_atext_def ATEXT_def MONKEY_CHAR_def isalpha_def isdigit_def address_clear_def)

lemma member_start_word:
  assumes "word_name n" "member_start k \<lparr>name = n, address = ad\<rparr>"
  shows "start_ok k n"
proof (cases "k = BEGIN")
  case True
  then show ?thesis by (simp add: start_ok_def)
next
  case False
  from word_name_facts [OF assms(1)] have ne: "n \<noteq> []" and at: "list_all is_atext n" by simp_all
  from False assms(2) ne have k: "k = GROUPBEG" and l: "2 \<le> length n"
    by (auto simp: member_start_def group_first_def)
  from at l have "is_atext (n ! 1)" by (simp add: list_all_length)
  with k l show ?thesis by (simp add: start_ok_def)
qed

text \<open>An address followed by the separator of \<^verbatim>\<open>format_mailbox\<close>.\<close>

lemma steps_element:
  assumes q: "\<forall>ch. QTEXT_REGEX ch \<longrightarrow> isalpha ch \<or> isdigit ch \<or> isspace ch \<or> ch \<in> set q"
    and nq: "QUOTE_CHAR \<notin> set q"
    and a: "roundtrip_address a" and k: "member_start k a"
  shows "steps q (address_text a @ '', '') (cst x k xs [] [] False) =
    Inr (cst x BEGIN (xs @ [a]) [] [] False)"
proof (cases "address a = []")
  case True
  with a have w: "word_name (name a)" by (simp add: roundtrip_address_def)
  from k have "member_start k \<lparr>name = name a, address = address a\<rparr>" by (simp only: address_eta)
  from member_start_word [OF w this] have s: "start_ok k (name a)" .
  have e: "\<lparr>name = name a, address = []\<rparr> = a" using True address_eta [of a] by simp
  have "steps q (name a @ '', '') (cst x k xs [] [] False) =
      steps q '', '' (cst x NAMEADDRGRP xs [] (name a) False)"
    by (rule steps_append_Inr [OF steps_word [OF word_name_facts(1,2) [OF w] s]])
  also have "\<dots> = Inr (cst x BEGIN (xs @ [a]) [] [] False)"
    by (simp only: steps_word_separator word_name_facts(3) [OF w] e)
  finally show ?thesis using True by (simp add: address_text_def)
next
  case False
  have b: "steps q (name_prefix a @ [LESS_THAN_CHAR] @ address a) (cst x k xs [] [] False) =
      Inr (cst x ADDRBRBEG xs (name a) (address a) True)"
    by (rule steps_bracketed [OF q nq a False k])
  have c: "steps q [GREATER_THAN_CHAR] (cst x ADDRBRBEG xs (name a) (address a) True) =
      Inr (cst x ADDRBREND (xs @ [a]) [] [] False)"
    by (simp add: step_close address_eta)
  have "address_text a @ '', '' =
      (name_prefix a @ [LESS_THAN_CHAR] @ address a) @ [GREATER_THAN_CHAR] @ '', ''"
    using False by (simp add: address_text_def)
  then have "steps q (address_text a @ '', '') (cst x k xs [] [] False) =
      steps q ([GREATER_THAN_CHAR] @ '', '') (cst x ADDRBRBEG xs (name a) (address a) True)"
    using steps_append_Inr [OF b] by simp
  also have "\<dots> = steps q '', '' (cst x ADDRBREND (xs @ [a]) [] [] False)"
    by (rule steps_append_Inr [OF c])
  also note steps_separator
  finally show ?thesis .
qed


subsection \<open>Lists of addresses and groups\<close>

lemma steps_separated:
  assumes q: "\<forall>ch. QTEXT_REGEX ch \<longrightarrow> isalpha ch \<or> isdigit ch \<or> isspace ch \<or> ch \<in> set q"
    and nq: "QUOTE_CHAR \<notin> set q"
  shows "list_all roundtrip_address as \<Longrightarrow>
    steps q (separated as) (cst x BEGIN xs [] [] False) = Inr (cst x BEGIN (xs @ as) [] [] False)"
proof (induction as arbitrary: xs)
  case Nil
  then show ?case by (simp add: separated_def)
next
  case (Cons a as)
  from Cons.prems have a: "roundtrip_address a" and r: "list_all roundtrip_address as" by simp_all
  have k: "member_start BEGIN a" by (simp add: member_start_def)
  have "separated (a # as) = (address_text a @ '', '') @ separated as"
    by (simp add: separated_def)
  then have "steps q (separated (a # as)) (cst x BEGIN xs [] [] False) =
      steps q (separated as) (cst x BEGIN (xs @ [a]) [] [] False)"
    using steps_append_Inr [OF steps_element [OF q nq a k, of x xs]] by simp
  also have "\<dots> = Inr (cst x BEGIN ((xs @ [a]) @ as) [] [] False)"
    by (rule Cons.IH [OF r])
  finally show ?case by simp
qed

lemma addresses_text_snoc:
  "as \<noteq> [] \<Longrightarrow> addresses_text as = separated (butlast as) @ address_text (last as)"
  by (induction as rule: addresses_text.induct) (simp_all add: separated_def)

lemma addresses_text_separated:
  "as \<noteq> [] \<Longrightarrow> addresses_text as @ '', '' = separated as"
  by (induction as rule: addresses_text.induct) (simp_all add: separated_def)

text \<open>A list of addresses whose last one has a mailbox part, to its closing bracket.\<close>

lemma steps_addresses_open:
  assumes q: "\<forall>ch. QTEXT_REGEX ch \<longrightarrow> isalpha ch \<or> isdigit ch \<or> isspace ch \<or> ch \<in> set q"
    and nq: "QUOTE_CHAR \<notin> set q"
    and ne: "as \<noteq> []" and as: "list_all roundtrip_address as" and l: "address (last as) \<noteq> []"
  shows "steps q (separated (butlast as) @ name_prefix (last as) @ [LESS_THAN_CHAR] @ address (last as))
      (cst x BEGIN xs [] [] False) =
    Inr (cst x ADDRBRBEG (xs @ butlast as) (name (last as)) (address (last as)) True)"
proof -
  from as have b: "list_all roundtrip_address (butlast as)"
    by (simp add: list_all_iff in_set_butlastD)
  from ne as have la: "roundtrip_address (last as)" by (simp add: list_all_iff)
  have k: "member_start BEGIN (last as)" by (simp add: member_start_def)
  from steps_append_Inr [OF steps_separated [OF q nq b, of x xs]]
    steps_bracketed [OF q nq la l k, of x "xs @ butlast as"]
  show ?thesis by simp
qed

lemma addresses_text_bracket:
  assumes "as \<noteq> []" "address (last as) \<noteq> []"
  shows "addresses_text as =
    (separated (butlast as) @ name_prefix (last as) @ [LESS_THAN_CHAR] @ address (last as)) @
    [GREATER_THAN_CHAR]"
  using assms by (simp add: addresses_text_snoc address_text_def)

lemma steps_addresses_bracket:
  assumes q: "\<forall>ch. QTEXT_REGEX ch \<longrightarrow> isalpha ch \<or> isdigit ch \<or> isspace ch \<or> ch \<in> set q"
    and nq: "QUOTE_CHAR \<notin> set q"
    and ne: "as \<noteq> []" and as: "list_all roundtrip_address as" and l: "address (last as) \<noteq> []"
  shows "steps q (addresses_text as) (cst x BEGIN xs [] [] False) =
    Inr (cst x ADDRBREND (xs @ as) [] [] False)"
proof -
  have "steps q (addresses_text as) (cst x BEGIN xs [] [] False) =
      steps q [GREATER_THAN_CHAR]
        (cst x ADDRBRBEG (xs @ butlast as) (name (last as)) (address (last as)) True)"
    unfolding addresses_text_bracket [OF ne l]
    by (rule steps_append_Inr [OF steps_addresses_open [OF q nq ne as l]])
  also have "\<dots> = Inr (cst x ADDRBREND ((xs @ butlast as) @ [last as]) [] [] False)"
    by (simp add: step_close address_eta)
  finally show ?thesis using ne by simp
qed

text \<open>The members of a group, from the blank after the colon to the last closing bracket.\<close>

lemma steps_members:
  assumes q: "\<forall>ch. QTEXT_REGEX ch \<longrightarrow> isalpha ch \<or> isdigit ch \<or> isspace ch \<or> ch \<in> set q"
    and nq: "QUOTE_CHAR \<notin> set q"
    and ms: "roundtrip_members ms"
  shows "\<exists>k. (k = ADDRBREND \<or> k = GROUPBEG) \<and>
    steps q (addresses_text ms) (cst x GROUPBEG [] [] [] False) = Inr (cst x k ms [] [] False)"
proof (cases ms)
  case Nil
  then show ?thesis by (intro exI [of _ GROUPBEG]) simp
next
  case (Cons a rest)
  from ms Cons have a: "roundtrip_address a" and r: "list_all roundtrip_address rest"
    and g: "group_first a" and l: "address (last (a # rest)) \<noteq> []"
    by (simp_all add: roundtrip_members_def)
  from g have k: "member_start GROUPBEG a" by (simp add: member_start_def)
  show ?thesis
  proof (cases "rest = []")
    case True
    with l have ad: "address a \<noteq> []" by simp
    have "steps q (address_text a) (cst x GROUPBEG [] [] [] False) =
        steps q [GREATER_THAN_CHAR] (cst x ADDRBRBEG [] (name a) (address a) True)"
      using steps_append_Inr [OF steps_bracketed [OF q nq a ad k, of x "[]"], of "[GREATER_THAN_CHAR]"] ad
      by (simp add: address_text_def)
    also have "\<dots> = Inr (cst x ADDRBREND [a] [] [] False)"
      by (simp add: step_close address_eta)
    finally have "steps q (addresses_text ms) (cst x GROUPBEG [] [] [] False) =
        Inr (cst x ADDRBREND ms [] [] False)"
      using True Cons by simp
    then show ?thesis by blast
  next
    case False
    with l have lr: "address (last rest) \<noteq> []" by simp
    from False have t: "addresses_text (a # rest) = (address_text a @ '', '') @ addresses_text rest"
      by (cases rest) simp_all
    have "steps q (addresses_text (a # rest)) (cst x GROUPBEG [] [] [] False) =
        steps q (addresses_text rest) (cst x BEGIN ([] @ [a]) [] [] False)"
      unfolding t by (rule steps_append_Inr [OF steps_element [OF q nq a k]])
    also have "\<dots> = Inr (cst x ADDRBREND (([] @ [a]) @ rest) [] [] False)"
      by (rule steps_addresses_bracket [OF q nq False r lr])
    finally have "steps q (addresses_text ms) (cst x GROUPBEG [] [] [] False) =
        Inr (cst x ADDRBREND ms [] [] False)"
      using Cons by simp
    then show ?thesis by blast
  qed
qed

lemma colon_facts:
  "\<not> is_atext COLON_CHAR" "\<not> isspace COLON_CHAR" "COLON_CHAR \<noteq> MONKEY_CHAR"
  "COLON_CHAR \<noteq> COMMA_CHAR"
  by (simp_all add: is_atext_def isalpha_def isdigit_def isspace_def ATEXT_def COLON_CHAR_def
      MONKEY_CHAR_def COMMA_CHAR_def)

lemma semicolon_facts:
  "\<not> is_atext SEMICOLON_CHAR" "\<not> isspace SEMICOLON_CHAR" "SEMICOLON_CHAR \<noteq> LESS_THAN_CHAR"
  "SEMICOLON_CHAR \<noteq> COMMA_CHAR"
  by (simp_all add: is_atext_def isalpha_def isdigit_def isspace_def ATEXT_def SEMICOLON_CHAR_def
      LESS_THAN_CHAR_def COMMA_CHAR_def)

lemma steps_group_colon:
  "steps q ([COLON_CHAR] @ [SPACE_CHAR]) (cst (ctx ml gl \<lparr>group_name = [], members = []\<rparr> False) NAMEADDRGRP pend [] gn False) =
     Inr (cst (ctx (ml @ pend) gl \<lparr>group_name = gn, members = []\<rparr> True) GROUPBEG [] [] [] False)"
  by (simp add: step_def at_NAMEADDRGRP_def at_GROUPBEG_def cst_def ctx_def colon_facts
      SPACE_CHAR_def blank_facts)

lemma step_group_close:
  "k = ADDRBREND \<or> k = GROUPBEG \<Longrightarrow>
   step q is_last SEMICOLON_CHAR (cst (ctx ml gl \<lparr>group_name = gn, members = []\<rparr> True) k ms [] [] False) =
     Inr (cst (ctx ml (gl @ [\<lparr>group_name = gn, members = ms\<rparr>]) \<lparr>group_name = [], members = []\<rparr> False)
            GROUPEND [] [] [] False)"
  by (auto simp: step_def at_ADDRBREND_def at_GROUPBEG_def cst_def ctx_def semicolon_facts
      group_add_def group_clear_def)

lemma step_group_space:
  "step q False CHR '' '' (cst x GROUPEND xs nm tok mf) = Inr (cst x GROUPEND xs nm tok mf)"
  by (simp add: step_def at_GROUPEND_def cst_def blank_facts LEFT_PARENTHESIS_CHAR_def)

lemma group_eta: "\<lparr>group_name = group_name g, members = members g\<rparr> = (g :: mail_group)"
  by (cases g) simp

text \<open>A group, from its name to the last character before the semicolon, and the
  semicolon.\<close>

lemma steps_group:
  assumes q: "\<forall>ch. QTEXT_REGEX ch \<longrightarrow> isalpha ch \<or> isdigit ch \<or> isspace ch \<or> ch \<in> set q"
    and nq: "QUOTE_CHAR \<notin> set q"
    and ne: "group_name g \<noteq> []" and at: "list_all is_atext (group_name g)"
    and k: "start_ok k (group_name g)" and ms: "roundtrip_members (members g)"
  shows "\<exists>s'. steps q (group_name g @ '': '' @ addresses_text (members g))
        (cst (ctx ml gl \<lparr>group_name = [], members = []\<rparr> False) k pend [] [] False) = Inr s' \<and>
      (\<forall>is_last. step q is_last SEMICOLON_CHAR s' =
         Inr (cst (ctx (ml @ pend) (gl @ [g]) \<lparr>group_name = [], members = []\<rparr> False)
                GROUPEND [] [] [] False))"
proof -
  let ?x = "ctx ml gl \<lparr>group_name = [], members = []\<rparr> False"
  let ?y = "ctx (ml @ pend) gl \<lparr>group_name = group_name g, members = []\<rparr> True"
  have n: "steps q (group_name g) (cst ?x k pend [] [] False) =
      Inr (cst ?x NAMEADDRGRP pend [] (group_name g) False)"
    by (rule steps_word [OF ne at k])
  have c: "steps q '': '' (cst ?x NAMEADDRGRP pend [] (group_name g) False) =
      Inr (cst ?y GROUPBEG [] [] [] False)"
    using steps_group_colon [of q ml gl pend "group_name g"]
    by (simp add: COLON_CHAR_def SPACE_CHAR_def)
  from steps_members [OF q nq ms, of ?y] obtain k' where
    k': "k' = ADDRBREND \<or> k' = GROUPBEG"
    and m: "steps q (addresses_text (members g)) (cst ?y GROUPBEG [] [] [] False) =
      Inr (cst ?y k' (members g) [] [] False)"
    by blast
  have "steps q (group_name g @ '': '' @ addresses_text (members g)) (cst ?x k pend [] [] False) =
      steps q ('': '' @ addresses_text (members g)) (cst ?x NAMEADDRGRP pend [] (group_name g) False)"
    by (rule steps_append_Inr [OF n])
  also have "\<dots> = steps q (addresses_text (members g)) (cst ?y GROUPBEG [] [] [] False)"
    by (rule steps_append_Inr [OF c])
  also note m
  finally have s: "steps q (group_name g @ '': '' @ addresses_text (members g))
      (cst ?x k pend [] [] False) = Inr (cst ?y k' (members g) [] [] False)" .
  have "step q is_last SEMICOLON_CHAR (cst ?y k' (members g) [] [] False) =
      Inr (cst (ctx (ml @ pend) (gl @ [g]) \<lparr>group_name = [], members = []\<rparr> False)
             GROUPEND [] [] [] False)" for is_last
    using step_group_close [OF k', of q is_last "ml @ pend" gl "group_name g" "members g"]
    by (simp only: group_eta)
  with s show ?thesis by blast
qed

lemma run_groups:
  assumes q: "\<forall>ch. QTEXT_REGEX ch \<longrightarrow> isalpha ch \<or> isdigit ch \<or> isspace ch \<or> ch \<in> set q"
    and nq: "QUOTE_CHAR \<notin> set q"
  shows "gs \<noteq> [] \<Longrightarrow> roundtrip_groups first gs \<Longrightarrow>
    run q (groups_text gs)
      (cst (ctx ml gl \<lparr>group_name = [], members = []\<rparr> False) (group_start first) pend [] [] False) =
    Inr (cst (ctx (ml @ pend) (gl @ gs) \<lparr>group_name = [], members = []\<rparr> False) GROUPEND [] [] [] False)"
proof (induction gs arbitrary: first ml gl pend)
  case Nil
  then show ?case by simp
next
  case (Cons g gs)
  let ?e = "\<lparr>group_name = [], members = []\<rparr> :: mail_group"
  from Cons.prems(2) have ne: "group_name g \<noteq> []" and at: "list_all is_atext (group_name g)"
    and len: "first \<or> 2 \<le> length (group_name g)" and ms: "roundtrip_members (members g)"
    and rest: "roundtrip_groups False gs"
    by (simp_all add: ATEXT_REGEX_atext [abs_def])
  have k: "start_ok (group_start first) (group_name g)"
  proof (cases first)
    case True
    then show ?thesis by (simp add: start_ok_def group_start_def)
  next
    case False
    with len have l: "2 \<le> length (group_name g)" by simp
    with at have "is_atext (group_name g ! 1)" by (simp add: list_all_length)
    with l False show ?thesis by (simp add: start_ok_def group_start_def)
  qed
  let ?body = "group_name g @ '': '' @ addresses_text (members g)"
  from steps_group [OF q nq ne at k ms, of ml gl pend] obtain s' where
    b: "steps q ?body (cst (ctx ml gl ?e False) (group_start first) pend [] [] False) = Inr s'"
    and c: "\<And>is_last. step q is_last SEMICOLON_CHAR s' =
      Inr (cst (ctx (ml @ pend) (gl @ [g]) ?e False) GROUPEND [] [] [] False)"
    by blast
  show ?case
  proof (cases "gs = []")
    case True
    then have t: "groups_text (g # gs) = ?body @ [SEMICOLON_CHAR]"
      by (simp add: SEMICOLON_CHAR_def)
    have "run q (?body @ [SEMICOLON_CHAR]) (cst (ctx ml gl ?e False) (group_start first) pend [] [] False) =
        Inr (cst (ctx (ml @ pend) (gl @ [g]) ?e False) GROUPEND [] [] [] False)"
      by (simp only: run_snoc b bind_err_Inr c)
    then show ?thesis unfolding t using True by simp
  next
    case False
    then have t: "groups_text (g # gs) = ?body @ ([SEMICOLON_CHAR] @ '' '') @ groups_text gs"
      by (simp add: SEMICOLON_CHAR_def)
    from False have gne: "groups_text gs \<noteq> []" by (cases gs) simp_all
    have sp: "steps q ([SEMICOLON_CHAR] @ '' '') s' =
        Inr (cst (ctx (ml @ pend) (gl @ [g]) ?e False) GROUPEND [] [] [] False)"
      by (simp add: c step_group_space)
    have st: "steps q (?body @ [SEMICOLON_CHAR] @ '' '')
          (cst (ctx ml gl ?e False) (group_start first) pend [] [] False) =
        Inr (cst (ctx (ml @ pend) (gl @ [g]) ?e False) GROUPEND [] [] [] False)"
      using steps_append_Inr [OF b, of "[SEMICOLON_CHAR] @ '' ''"] sp by simp
    have "run q ((?body @ [SEMICOLON_CHAR] @ '' '') @ groups_text gs)
          (cst (ctx ml gl ?e False) (group_start first) pend [] [] False) =
        run q (groups_text gs) (cst (ctx (ml @ pend) (gl @ [g]) ?e False) GROUPEND [] [] [] False)"
      by (simp only: run_append [OF gne] st bind_err_Inr)
    then have "run q (groups_text (g # gs)) (cst (ctx ml gl ?e False) (group_start first) pend [] [] False) =
        run q (groups_text gs) (cst (ctx (ml @ pend) (gl @ [g]) ?e False) GROUPEND [] [] [] False)"
      unfolding t by simp
    also have "\<dots> = Inr (cst (ctx ((ml @ pend) @ []) ((gl @ [g]) @ gs) ?e False) GROUPEND [] [] [] False)"
      using Cons.IH [OF False rest, of "ml @ pend" "gl @ [g]" "[]"] by (simp add: group_start_def)
    finally show ?thesis by simp
  qed
qed


subsection \<open>What the formatter writes is read back\<close>

lemma format_address_text:
  assumes "roundtrip_address a"
  shows "format_address (name a) (address a) = Inr (address_text a)"
proof (cases "address a = []")
  case True
  with assms have w: "word_name (name a)" by (simp add: roundtrip_address_def)
  from word_name_facts(1,4) [OF w] True show ?thesis
    by (simp add: format_address_def address_text_def)
next
  case False
  with assms have ad: "list_all DTEXT_REGEX (address a)"
    and nm: "name a = [] \<or> plain_name (name a) \<or> quoted_name (name a)"
    by (simp_all add: roundtrip_address_def mailbox_part_def)
  from nm consider "name a = []" | "name a \<noteq> []" "list_all name_class (name a)"
    | "name a \<noteq> []" "\<not> list_all name_class (name a)" "list_all QTEXT_REGEX (name a)"
    by (auto simp: plain_name_def quoted_name_def)
  then show ?thesis
    by cases (simp_all add: format_address_def address_text_def name_prefix_def ad False)
qed

lemma format_addresses_text:
  "list_all roundtrip_address as \<Longrightarrow> format_addresses as = Inr (addresses_text as)"
  by (induction as rule: addresses_text.induct) (simp_all add: format_address_text)

lemma format_groups_text:
  "roundtrip_groups first gs \<Longrightarrow> format_groups gs = Inr (groups_text gs)"
proof (induction gs arbitrary: first)
  case Nil
  then show ?case by simp
next
  case (Cons g gs)
  from Cons.prems have at: "list_all ATEXT_REGEX (group_name g)"
    and ms: "list_all roundtrip_address (members g)" and r: "roundtrip_groups False gs"
    by (simp_all add: roundtrip_members_def)
  from Cons.IH [OF r] format_addresses_text [OF ms] at show ?case
    by (simp add: COLON_CHAR_def SPACE_CHAR_def)
qed

lemma format_mailbox_text:
  assumes "roundtrip_mailboxes mb"
  shows "format_mailbox mb = Inr (mailbox_text mb)"
proof -
  from assms have as: "list_all roundtrip_address (addresses mb)"
    and gs: "groups mb \<noteq> [] \<longrightarrow> roundtrip_groups True (groups mb)"
    by (auto simp: roundtrip_mailboxes_def split: if_splits)
  have g: "format_groups (groups mb) = Inr (groups_text (groups mb))"
  proof (cases "groups mb = []")
    case True
    then show ?thesis by simp
  next
    case False
    with gs show ?thesis by (simp add: format_groups_text)
  qed
  show ?thesis
    by (simp add: format_mailbox_def mailbox_text_def format_addresses_text [OF as] g)
qed

lemma step_word_last:
  assumes "is_atext ch" "\<not> group_found x"
  shows "\<exists>s. step q True ch (cst x NAMEADDRGRP xs [] tok False) = Inr s \<and>
    mail_list s = mail_list x @ xs @ [\<lparr>name = tok @ [ch], address = []\<rparr>] \<and>
    mail_group_list s = mail_group_list x"
  using assms by (simp add: step_def at_NAMEADDRGRP_def cst_def Let_def)

lemma step_single_last:
  assumes "is_atext ch" "\<not> group_found x"
  shows "\<exists>s. step q True ch (cst x BEGIN [] [] [] False) = Inr s \<and>
    mail_list s = mail_list x @ [\<lparr>name = [ch], address = []\<rparr>] \<and>
    mail_group_list s = mail_group_list x"
proof -
  from assms(1) have "\<not> isspace ch" by (rule atext_not_space)
  then have "trim [ch] = [ch]" by (simp add: trim_def)
  with assms \<open>\<not> isspace ch\<close> show ?thesis
    by (simp add: step_def at_BEGIN_def cst_def Let_def)
qed

lemma init_cst: "pstate_init () = cst (ctx [] [] \<lparr>group_name = [], members = []\<rparr> False) BEGIN [] [] [] False"
  by (simp add: pstate_init_def cst_def ctx_def)

lemma ctx_sel:
  "mail_list (ctx ml gl cg gf) = ml" "mail_group_list (ctx ml gl cg gf) = gl"
  "group_found (ctx ml gl cg gf) = gf"
  by (simp_all add: ctx_def)

lemma cst_sel:
  "mail_list (cst x k xs nm tok mf) = mail_list x"
  "mail_group_list (cst x k xs nm tok mf) = mail_group_list x"
  by (simp_all add: cst_def)

text \<open>A list of addresses with no group after it.\<close>

lemma run_addresses:
  assumes q: "\<forall>ch. QTEXT_REGEX ch \<longrightarrow> isalpha ch \<or> isdigit ch \<or> isspace ch \<or> ch \<in> set q"
    and nq: "QUOTE_CHAR \<notin> set q"
    and ne: "as \<noteq> []" and as: "list_all roundtrip_address as"
    and l: "2 \<le> length as \<longrightarrow> \<not> (address (last as) = [] \<and> length (name (last as)) = 1)"
  shows "\<exists>s. run q (addresses_text as) (pstate_init ()) = Inr s \<and>
    mail_list s = as \<and> mail_group_list s = []"
proof -
  let ?x = "ctx [] [] \<lparr>group_name = [], members = []\<rparr> False"
  from as have b: "list_all roundtrip_address (butlast as)"
    by (simp add: list_all_iff in_set_butlastD)
  from ne as have la: "roundtrip_address (last as)" by (simp add: list_all_iff)
  have gf: "\<not> group_found ?x" by (simp add: ctx_sel)
  have sep: "steps q (separated (butlast as)) (cst ?x BEGIN [] [] [] False) =
      Inr (cst ?x BEGIN ([] @ butlast as) [] [] False)"
    by (rule steps_separated [OF q nq b])
  show ?thesis
  proof (cases "address (last as) = []")
    case False
    have "run q (addresses_text as) (cst ?x BEGIN [] [] [] False) =
        Inr ((cst ?x ADDRBREND (([] @ butlast as) @ [\<lparr>name = name (last as), address = address (last as)\<rparr>]) [] [] False)
          \<lparr>mail_list := mail_list ?x @ ([] @ butlast as) @ [\<lparr>name = name (last as), address = address (last as)\<rparr>]\<rparr>)"
      unfolding addresses_text_bracket [OF ne False]
      by (simp only: run_snoc steps_addresses_open [OF q nq ne as False] bind_err_Inr
          step_close_last [OF gf])
    then show ?thesis using ne by (simp add: init_cst address_eta ctx_sel cst_def)
  next
    case True
    with la have w: "word_name (name (last as))" by (simp add: roundtrip_address_def)
    from word_name_facts [OF w] have nne: "name (last as) \<noteq> []"
      and at: "list_all is_atext (name (last as))" by simp_all
    let ?n = "name (last as)"
    from True have tx: "addresses_text as = (separated (butlast as) @ butlast ?n) @ [last ?n]"
      using ne nne by (simp add: addresses_text_snoc address_text_def)
    from nne at have lat: "is_atext (last ?n)" by (simp add: list_all_iff)
    have e: "\<lparr>name = ?n, address = []\<rparr> = last as" using True address_eta [of "last as"] by simp
    show ?thesis
    proof (cases "butlast ?n = []")
      case False
      from at have bat: "list_all is_atext (butlast ?n)"
        by (simp add: list_all_iff in_set_butlastD)
      have w: "steps q (butlast ?n) (cst ?x BEGIN ([] @ butlast as) [] [] False) =
          Inr (cst ?x NAMEADDRGRP ([] @ butlast as) [] (butlast ?n) False)"
        by (rule steps_word [OF False bat]) (simp add: start_ok_def)
      have st: "steps q (separated (butlast as) @ butlast ?n) (cst ?x BEGIN [] [] [] False) =
          Inr (cst ?x NAMEADDRGRP ([] @ butlast as) [] (butlast ?n) False)"
        using steps_append_Inr [OF sep, of "butlast ?n"] w by simp
      from step_word_last [OF lat gf, of q "[] @ butlast as" "butlast ?n"] obtain s where
        s: "step q True (last ?n) (cst ?x NAMEADDRGRP ([] @ butlast as) [] (butlast ?n) False) = Inr s"
        and m: "mail_list s = mail_list ?x @ ([] @ butlast as) @ [\<lparr>name = butlast ?n @ [last ?n], address = []\<rparr>]"
        and g: "mail_group_list s = mail_group_list ?x"
        by blast
      have r: "run q (addresses_text as) (pstate_init ()) = Inr s"
        unfolding tx init_cst by (simp only: run_snoc st bind_err_Inr s)
      from m nne e ne have "mail_list s = as" by (simp add: ctx_sel)
      with r g show ?thesis by (simp add: ctx_sel)
    next
      case True
      with nne have one: "?n = [last ?n]" by (metis append_Nil snoc_eq_iff_butlast)
      then have "length ?n = 1" by (metis length_Cons list.size(3) One_nat_def)
      with l \<open>address (last as) = []\<close> have "\<not> 2 \<le> length as" by blast
      with ne have single: "as = [last as]" by (cases as; cases "tl as") auto
      then have tx1: "addresses_text as = [last ?n]"
        using \<open>address (last as) = []\<close> one by (metis addresses_text.simps(2) address_text_def)
      from step_single_last [OF lat gf, of q] obtain s where
        s: "step q True (last ?n) (cst ?x BEGIN [] [] [] False) = Inr s"
        and m: "mail_list s = mail_list ?x @ [\<lparr>name = [last ?n], address = []\<rparr>]"
        and g: "mail_group_list s = mail_group_list ?x"
        by blast
      have r: "run q (addresses_text as) (pstate_init ()) = Inr s"
        unfolding tx1 init_cst using s by simp
      from m one e single have "mail_list s = as" by (simp add: ctx_sel)
      with r g show ?thesis by (simp add: ctx_sel)
    qed
  qed
qed

lemma mailboxes_eta: "\<lparr>addresses = addresses mb, groups = groups mb\<rparr> = (mb :: mailboxes)"
  by (cases mb) simp

text \<open>What \<^verbatim>\<open>format_mailbox\<close> writes for such mailboxes is read back as they are.\<close>

lemma parse_mailbox_text:
  assumes q: "\<forall>ch. QTEXT_REGEX ch \<longrightarrow> isalpha ch \<or> isdigit ch \<or> isspace ch \<or> ch \<in> set q"
    and nq: "QUOTE_CHAR \<notin> set q"
    and mb: "roundtrip_mailboxes mb"
  shows "parse_address_list q (mailbox_text mb) = Inr mb"
proof (cases "groups mb = []")
  case True
  show ?thesis
  proof (cases "addresses mb = []")
    case e: True
    with True have "mailbox_text mb = []" by (simp add: mailbox_text_def)
    moreover have "\<lparr>addresses = [], groups = []\<rparr> = mb"
      using True e mailboxes_eta [of mb] by simp
    ultimately show ?thesis by (simp add: parse_address_list_def pstate_init_def)
  next
    case False
    from mb True have as: "list_all roundtrip_address (addresses mb)"
      and l: "2 \<le> length (addresses mb) \<longrightarrow>
        \<not> (address (last (addresses mb)) = [] \<and> length (name (last (addresses mb))) = 1)"
      by (auto simp: roundtrip_mailboxes_def)
    from run_addresses [OF q nq False as l] obtain s where
      "run q (addresses_text (addresses mb)) (pstate_init ()) = Inr s"
      "mail_list s = addresses mb" "mail_group_list s = []"
      by blast
    with True mailboxes_eta [of mb] show ?thesis
      by (simp add: parse_address_list_def mailbox_text_def)
  qed
next
  case False
  let ?e = "\<lparr>group_name = [], members = []\<rparr> :: mail_group"
  from mb False have as: "list_all roundtrip_address (addresses mb)" and ne: "addresses mb \<noteq> []"
    and gs: "roundtrip_groups True (groups mb)"
    by (simp_all add: roundtrip_mailboxes_def)
  from False have gne: "groups_text (groups mb) \<noteq> []" by (cases "groups mb") simp_all
  have tx: "mailbox_text mb = separated (addresses mb) @ groups_text (groups mb)"
    using False addresses_text_separated [OF ne] by (simp add: mailbox_text_def)
  have sep: "steps q (separated (addresses mb)) (cst (ctx [] [] ?e False) BEGIN [] [] [] False) =
      Inr (cst (ctx [] [] ?e False) BEGIN ([] @ addresses mb) [] [] False)"
    by (rule steps_separated [OF q nq as])
  have grp: "run q (groups_text (groups mb)) (cst (ctx [] [] ?e False) BEGIN ([] @ addresses mb) [] [] False) =
      Inr (cst (ctx ([] @ [] @ addresses mb) ([] @ groups mb) ?e False) GROUPEND [] [] [] False)"
    using run_groups [OF q nq False gs, of "[]" "[]" "[] @ addresses mb"]
    by (simp add: group_start_def)
  have "run q (mailbox_text mb) (pstate_init ()) =
      Inr (cst (ctx ([] @ [] @ addresses mb) ([] @ groups mb) ?e False) GROUPEND [] [] [] False)"
    unfolding tx init_cst by (simp only: run_append [OF gne] sep bind_err_Inr grp)
  then show ?thesis
    by (simp add: parse_address_list_def cst_sel ctx_sel mailboxes_eta)
qed

subsection \<open>The header lines of a formatted message\<close>

lemma text_lines_line: "no_crlf l \<Longrightarrow> text_lines (l @ CRLF @ rest) = l # text_lines rest"
proof (induction l rule: no_crlf.induct)
  case (1 ch ch' r)
  then show ?case by simp
next
  case (2 ch)
  then show ?case by (simp add: CRLF_def)
next
  case 3
  then show ?case by (simp add: CRLF_def)
qed

lemma text_lines_joined:
  "list_all no_crlf ls \<Longrightarrow> text_lines (joined ls @ rest) = ls @ text_lines rest"
proof (induction ls)
  case Nil
  then show ?case by (simp add: joined_def)
next
  case (Cons l ls)
  then have l: "no_crlf l" and ls: "list_all no_crlf ls" by simp_all
  have "joined (l # ls) @ rest = l @ CRLF @ (joined ls @ rest)" by (simp add: joined_def)
  with text_lines_line [OF l, of "joined ls @ rest"] Cons.IH [OF ls] show ?case by simp
qed

lemma header_lines_joined:
  assumes "list_all no_crlf ls" "list_all (\<lambda>l. l \<noteq> []) ls"
  shows "header_lines (joined ls @ CRLF @ rest) = ls"
proof -
  have "text_lines (CRLF @ rest) = [] # text_lines rest"
    using text_lines_line [of "[]" rest] by simp
  with text_lines_joined [OF assms(1), of "CRLF @ rest"]
  have "text_lines (joined ls @ CRLF @ rest) = ls @ [] # text_lines rest" by simp
  moreover from assms(2) have "takeWhile (\<lambda>l. l \<noteq> []) (ls @ [] # r) = ls" for r :: "string list"
    by (induction ls) simp_all
  ultimately show ?thesis by (simp add: header_lines_def)
qed

lemma no_crlf_prefix: "CHR 0x0D \<notin> set a \<Longrightarrow> no_crlf b \<Longrightarrow> no_crlf (a @ b)"
proof (induction a)
  case Nil
  then show ?case by simp
next
  case (Cons ch a)
  then have "no_crlf (a @ b)" and "ch \<noteq> CHR 0x0D" by auto
  then show ?case by (cases "a @ b") (simp_all add: CRLF_def)
qed

lemma no_cr_no_crlf: "CHR 0x0D \<notin> set s \<Longrightarrow> no_crlf s"
  using no_crlf_prefix [of s "[]"] by simp

lemma class_no_cr:
  "name_class ch \<Longrightarrow> ch \<noteq> CHR 0x0D" "QTEXT_REGEX ch \<Longrightarrow> ch \<noteq> CHR 0x0D"
  "DTEXT_REGEX ch \<Longrightarrow> ch \<noteq> CHR 0x0D" "ATEXT_REGEX ch \<Longrightarrow> ch \<noteq> CHR 0x0D"
  by (auto simp: name_class_def QTEXT_REGEX_def DTEXT_REGEX_def ATEXT_REGEX_def isalpha_def
      isdigit_def)

lemma list_all_no_cr:
  "list_all name_class s \<Longrightarrow> CHR 0x0D \<notin> set s" "list_all QTEXT_REGEX s \<Longrightarrow> CHR 0x0D \<notin> set s"
  "list_all DTEXT_REGEX s \<Longrightarrow> CHR 0x0D \<notin> set s" "list_all ATEXT_REGEX s \<Longrightarrow> CHR 0x0D \<notin> set s"
  using class_no_cr by (fastforce simp: list_all_iff)+

lemma format_address_no_cr:
  assumes "format_address nm ad = Inr s"
  shows "CHR 0x0D \<notin> set s"
proof (cases "nm = [] \<and> ad = []")
  case True
  with assms show ?thesis by (simp add: format_address_def)
next
  case False
  from assms False obtain sn where
    sn: "(if list_all name_class nm then Inr nm
          else if list_all QTEXT_REGEX nm then Inr ([QUOTE_CHAR] @ nm @ [QUOTE_CHAR])
          else bad_address) = Inr sn"
    by (cases "if list_all name_class nm then Inr nm
          else if list_all QTEXT_REGEX nm then Inr ([QUOTE_CHAR] @ nm @ [QUOTE_CHAR])
          else bad_address :: error + string") (simp_all add: format_address_def)
  from assms False sn obtain av where
    av: "(if ad \<noteq> [] then
            (if list_all DTEXT_REGEX ad then Inr ([LESS_THAN_CHAR] @ ad @ [GREATER_THAN_CHAR])
             else bad_address)
          else Inr []) = Inr av"
    and s: "s = (if sn = [] then av else sn @ (if av = [] then [] else '' '' @ av))"
    by (cases "if ad \<noteq> [] then
            (if list_all DTEXT_REGEX ad then Inr ([LESS_THAN_CHAR] @ ad @ [GREATER_THAN_CHAR])
             else bad_address)
          else Inr [] :: error + string") (auto simp: format_address_def)
  from sn have a: "CHR 0x0D \<notin> set sn"
    using list_all_no_cr(1,2) [of nm]
    by (auto simp: bad_address_def QUOTE_CHAR_def split: if_splits)
  from av have b: "CHR 0x0D \<notin> set av"
    using list_all_no_cr(3) [of ad]
    by (auto simp: bad_address_def LESS_THAN_CHAR_def GREATER_THAN_CHAR_def split: if_splits)
  from a b s show ?thesis by auto
qed

lemma format_addresses_no_cr:
  "format_addresses as = Inr s \<Longrightarrow> CHR 0x0D \<notin> set s"
proof (induction as arbitrary: s)
  case Nil
  then show ?case by simp
next
  case (Cons a as)
  from Cons.prems obtain t where t: "format_address (name a) (address a) = Inr t"
    by (cases "format_address (name a) (address a)") simp_all
  with Cons.prems obtain r where r: "format_addresses as = Inr r"
    by (cases "format_addresses as") simp_all
  from Cons.prems t r have "s = t @ (if as \<noteq> [] then '', '' else []) @ r" by simp
  with format_address_no_cr [OF t] Cons.IH [OF r] show ?case by auto
qed

lemma format_groups_no_cr:
  "format_groups gs = Inr s \<Longrightarrow> CHR 0x0D \<notin> set s"
proof (induction gs arbitrary: s)
  case Nil
  then show ?case by simp
next
  case (Cons g gs)
  from Cons.prems have at: "list_all ATEXT_REGEX (group_name g)"
    by (cases "list_all ATEXT_REGEX (group_name g)") (simp_all add: bad_address_def)
  with Cons.prems obtain t where t: "format_addresses (members g) = Inr t"
    by (cases "format_addresses (members g)") simp_all
  with Cons.prems at obtain r where r: "format_groups gs = Inr r"
    by (cases "format_groups gs") simp_all
  from Cons.prems at t r
  have "s = group_name g @ [COLON_CHAR] @ [SPACE_CHAR] @ t @ (if gs \<noteq> [] then ''; '' else '';'') @ r"
    by simp
  with list_all_no_cr(4) [OF at] format_addresses_no_cr [OF t] Cons.IH [OF r] show ?case
    by (auto simp: COLON_CHAR_def SPACE_CHAR_def)
qed

lemma format_mailbox_no_cr:
  assumes "format_mailbox mb = Inr s"
  shows "CHR 0x0D \<notin> set s"
proof -
  from assms obtain t where t: "format_addresses (addresses mb) = Inr t"
    by (cases "format_addresses (addresses mb)") (simp_all add: format_mailbox_def)
  with assms obtain r where r: "format_groups (groups mb) = Inr r"
    by (cases "format_groups (groups mb)") (simp_all add: format_mailbox_def)
  from assms t r have "s = t @ (if groups mb = [] then [] else '', '') @ r"
    by (simp add: format_mailbox_def)
  with format_addresses_no_cr [OF t] format_groups_no_cr [OF r] show ?thesis by auto
qed

subsection \<open>One header line\<close>

lemma header_dispatch:
  "iequals FROM_HEADER FROM_HEADER"
  "\<not> iequals TO_HEADER FROM_HEADER" "\<not> iequals TO_HEADER REPLY_TO_HEADER" "iequals TO_HEADER TO_HEADER"
  "\<not> iequals SUBJECT_HEADER FROM_HEADER" "\<not> iequals SUBJECT_HEADER REPLY_TO_HEADER"
  "\<not> iequals SUBJECT_HEADER TO_HEADER" "\<not> iequals SUBJECT_HEADER CC_HEADER"
  "iequals SUBJECT_HEADER SUBJECT_HEADER"
  "\<not> iequals DATE_HEADER FROM_HEADER" "\<not> iequals DATE_HEADER REPLY_TO_HEADER"
  "\<not> iequals DATE_HEADER TO_HEADER" "\<not> iequals DATE_HEADER CC_HEADER"
  "\<not> iequals DATE_HEADER SUBJECT_HEADER" "iequals DATE_HEADER DATE_HEADER"
  by code_simp+

lemma header_name_no_cr:
  "CHR 0x0D \<notin> set FROM_HEADER" "CHR 0x0D \<notin> set TO_HEADER" "CHR 0x0D \<notin> set DATE_HEADER"
  "CHR 0x0D \<notin> set SUBJECT_HEADER"
  by (simp_all add: FROM_HEADER_def TO_HEADER_def DATE_HEADER_def SUBJECT_HEADER_def)

lemma header_name_not_empty:
  "FROM_HEADER @ s \<noteq> []" "TO_HEADER @ s \<noteq> []" "DATE_HEADER @ s \<noteq> []" "SUBJECT_HEADER @ s \<noteq> []"
  by (simp_all add: FROM_HEADER_def TO_HEADER_def DATE_HEADER_def SUBJECT_HEADER_def)

lemma parse_from_line:
  assumes rd: "reads_header c FROM_HEADER v"
    and p: "parse_address_list (QTEXT c) v = Inr \<lparr>addresses = [a], groups = []\<rparr>"
  shows "\<exists>m1. parse_header_line c (FROM_HEADER @ COLON c @ v) m0 = Inr m1 \<and> sender m1 = a \<and>
    recipients m1 = recipients m0 \<and> subject m1 = subject m0 \<and> date_time m1 = date_time m0"
proof -
  from rd have nv: "parse_header_name_value c (FROM_HEADER @ COLON c @ v) = Inr (FROM_HEADER, v)"
    by (simp add: reads_header_def)
  from rd obtain b where b: "mime_parse_header_line c (FROM_HEADER @ COLON c @ v) (base m0) = Inr b"
    unfolding reads_header_def by blast
  show ?thesis
    by (simp add: parse_header_line_def nv b p header_dispatch)
qed

lemma parse_to_line:
  assumes rd: "reads_header c TO_HEADER v"
    and p: "parse_address_list (QTEXT c) v = Inr mbx"
  shows "\<exists>m1. parse_header_line c (TO_HEADER @ COLON c @ v) m0 = Inr m1 \<and> sender m1 = sender m0 \<and>
    recipients m1 = mbx \<and> subject m1 = subject m0 \<and> date_time m1 = date_time m0"
proof -
  from rd have nv: "parse_header_name_value c (TO_HEADER @ COLON c @ v) = Inr (TO_HEADER, v)"
    by (simp add: reads_header_def)
  from rd obtain b where b: "mime_parse_header_line c (TO_HEADER @ COLON c @ v) (base m0) = Inr b"
    unfolding reads_header_def by blast
  show ?thesis
    by (simp add: parse_header_line_def nv b p header_dispatch)
qed

lemma parse_subject_line:
  assumes rd: "reads_header c SUBJECT_HEADER v" and v: "trimmed v"
  shows "\<exists>m1. parse_header_line c (SUBJECT_HEADER @ COLON c @ v) m0 = Inr m1 \<and>
    sender m1 = sender m0 \<and> recipients m1 = recipients m0 \<and> subject m1 = v \<and>
    date_time m1 = date_time m0"
proof -
  from rd have nv: "parse_header_name_value c (SUBJECT_HEADER @ COLON c @ v) = Inr (SUBJECT_HEADER, v)"
    by (simp add: reads_header_def)
  from rd obtain b where b: "mime_parse_header_line c (SUBJECT_HEADER @ COLON c @ v) (base m0) = Inr b"
    unfolding reads_header_def by blast
  from v have t: "trim v = v" unfolding trimmed_def by (rule trim_trimmed)
  show ?thesis
    by (simp add: parse_header_line_def nv b t header_dispatch)
qed

lemma parse_date_line:
  assumes rd: "reads_header c DATE_HEADER v" and d: "date_roundtrip c d v"
  shows "\<exists>m1. parse_header_line c (DATE_HEADER @ COLON c @ v) m0 = Inr m1 \<and>
    sender m1 = sender m0 \<and> recipients m1 = recipients m0 \<and> subject m1 = subject m0 \<and>
    date_time m1 = d"
proof -
  from d have v: "trimmed v" by (simp add: date_roundtrip_def)
  from d obtain m1 m2 m3 where m: "date_regex v = Some (m1, m2, m3)"
    and g: "get_date c (dttz m1 m2 m3) = Some d"
    unfolding date_roundtrip_def by blast
  from rd have nv: "parse_header_name_value c (DATE_HEADER @ COLON c @ v) = Inr (DATE_HEADER, v)"
    by (simp add: reads_header_def)
  from rd obtain b where b: "mime_parse_header_line c (DATE_HEADER @ COLON c @ v) (base m0) = Inr b"
    unfolding reads_header_def by blast
  from v have t: "trim v = v" unfolding trimmed_def by (rule trim_trimmed)
  have pd: "parse_date c v = Inr d" by (simp add: parse_date_def m g)
  show ?thesis
    by (simp add: parse_header_line_def nv b t pd header_dispatch)
qed

lemma parse_other_line:
  assumes "other_header c l"
  shows "\<exists>m1. parse_header_line c l m0 = Inr m1 \<and> sender m1 = sender m0 \<and>
    recipients m1 = recipients m0 \<and> subject m1 = subject m0 \<and> date_time m1 = date_time m0"
proof -
  from assms obtain b where b: "mime_parse_header_line c l (base m0) = Inr b"
    unfolding other_header_def by blast
  from assms obtain n v where nv: "parse_header_name_value c l = Inr (n, v)"
    and n: "\<not> iequals n FROM_HEADER" "\<not> iequals n REPLY_TO_HEADER" "\<not> iequals n TO_HEADER"
      "\<not> iequals n CC_HEADER" "\<not> iequals n SUBJECT_HEADER" "\<not> iequals n DATE_HEADER"
    unfolding other_header_def by blast
  show ?thesis
    by (simp add: parse_header_line_def nv b n Let_def)
qed

lemma feed_other_lines:
  "list_all (other_header c) ls \<Longrightarrow>
   \<exists>m1. feed c ls m0 = Inr m1 \<and> sender m1 = sender m0 \<and> recipients m1 = recipients m0 \<and>
     subject m1 = subject m0 \<and> date_time m1 = date_time m0"
proof (induction ls arbitrary: m0)
  case Nil
  then show ?case by simp
next
  case (Cons l ls)
  then have l: "other_header c l" and ls: "list_all (other_header c) ls" by simp_all
  from parse_other_line [OF l, of m0] obtain m1 where
    "parse_header_line c l m0 = Inr m1" "sender m1 = sender m0" "recipients m1 = recipients m0"
    "subject m1 = subject m0" "date_time m1 = date_time m0"
    by blast
  with Cons.IH [OF ls, of m1] show ?case by auto
qed

lemma feed_append: "feed c (xs @ ys) m = bind_err (feed c xs m) (feed c ys)"
  by (induction xs arbitrary: m) (simp_all add: bind_err_def split: sum.splits)

lemma feed_append_Inr: "feed c xs m = Inr m1 \<Longrightarrow> feed c (xs @ ys) m = feed c ys m1"
  by (simp add: feed_append)

subsection \<open>The header of a message\<close>

lemma single_mailboxes:
  "roundtrip_address a \<Longrightarrow> roundtrip_mailboxes \<lparr>addresses = [a], groups = []\<rparr>"
  by (simp add: roundtrip_mailboxes_def)

lemma single_mailbox_text: "mailbox_text \<lparr>addresses = [a], groups = []\<rparr> = address_text a"
  by (simp add: mailbox_text_def)


subsection \<open>A message that comes back\<close>

lemma typed_collab_fields:
  "COLON typed_collab = '': ''"
  "QTEXT typed_collab = ''!#$%&'' @ [CHR 0x27] @ ''()*+,-.@/:;<=>?[]^_`{|}~''"
  "mime_parse_header_line typed_collab = (\<lambda>line b. Inr b)"
  "parse_header_name_value typed_collab = split_header"
  "put_date typed_collab = write_date" "get_date typed_collab = read_date"
  by (simp_all add: typed_collab_def sample_collab_def)

lemma sample_message_values:
  "sender_to_string sample_message = Inr ''Alice <alice@x.io>''"
  "recipients_to_string sample_message =
     Inr ([QUOTE_CHAR] @ ''Doe, John'' @ [QUOTE_CHAR] @
          '' <jdoe@mailio.dev>, <jane@mailio.dev>, Bob, Friends: Carol <carol@x.io>, <dave@x.io>; Team: ;'')"
  "date_time sample_message = Local_date_time 2014 7 17 10 31 49 120"
  "put_date typed_collab (Local_date_time 2014 7 17 10 31 49 120) =
     Some ''Thu, 17 Jul 2014 10:31:49 +0200''"
  "subject sample_message = ''Hello world''"
  by code_simp+

lemma sample_reads_header:
  "reads_header typed_collab FROM_HEADER ''Alice <alice@x.io>''"
  "reads_header typed_collab TO_HEADER
     ([QUOTE_CHAR] @ ''Doe, John'' @ [QUOTE_CHAR] @
      '' <jdoe@mailio.dev>, <jane@mailio.dev>, Bob, Friends: Carol <carol@x.io>, <dave@x.io>; Team: ;'')"
  "reads_header typed_collab DATE_HEADER ''Thu, 17 Jul 2014 10:31:49 +0200''"
  "reads_header typed_collab SUBJECT_HEADER ''Hello world''"
proof -
  have a: "split_header (FROM_HEADER @ '': '' @ ''Alice <alice@x.io>'') =
      Inr (FROM_HEADER, ''Alice <alice@x.io>'')"
    by code_simp
  have b: "split_header (TO_HEADER @ '': '' @ [QUOTE_CHAR] @ ''Doe, John'' @ [QUOTE_CHAR] @
      '' <jdoe@mailio.dev>, <jane@mailio.dev>, Bob, Friends: Carol <carol@x.io>, <dave@x.io>; Team: ;'') =
      Inr (TO_HEADER, [QUOTE_CHAR] @ ''Doe, John'' @ [QUOTE_CHAR] @
      '' <jdoe@mailio.dev>, <jane@mailio.dev>, Bob, Friends: Carol <carol@x.io>, <dave@x.io>; Team: ;'')"
    by code_simp
  have c: "split_header (DATE_HEADER @ '': '' @ ''Thu, 17 Jul 2014 10:31:49 +0200'') =
      Inr (DATE_HEADER, ''Thu, 17 Jul 2014 10:31:49 +0200'')"
    by code_simp
  have d: "split_header (SUBJECT_HEADER @ '': '' @ ''Hello world'') =
      Inr (SUBJECT_HEADER, ''Hello world'')"
    by code_simp
  from a show "reads_header typed_collab FROM_HEADER ''Alice <alice@x.io>''"
    by (simp add: reads_header_def typed_collab_fields)
  from b show "reads_header typed_collab TO_HEADER
     ([QUOTE_CHAR] @ ''Doe, John'' @ [QUOTE_CHAR] @
      '' <jdoe@mailio.dev>, <jane@mailio.dev>, Bob, Friends: Carol <carol@x.io>, <dave@x.io>; Team: ;'')"
    by (simp add: reads_header_def typed_collab_fields)
  from c show "reads_header typed_collab DATE_HEADER ''Thu, 17 Jul 2014 10:31:49 +0200''"
    by (simp add: reads_header_def typed_collab_fields)
  from d show "reads_header typed_collab SUBJECT_HEADER ''Hello world''"
    by (simp add: reads_header_def typed_collab_fields)
qed

lemma typed_collab_roundtrip: "collab_roundtrip typed_collab sample_message"
proof -
  have q: "\<forall>ch. QTEXT_REGEX ch \<longrightarrow> isalpha ch \<or> isdigit ch \<or> isspace ch \<or> ch \<in> set (QTEXT typed_collab)"
    by (auto simp: QTEXT_REGEX_def typed_collab_fields isspace_def)
  have nq: "QUOTE_CHAR \<notin> set (QTEXT typed_collab)"
    by (simp add: typed_collab_fields QUOTE_CHAR_def)
  have cr: "CHR 0x0D \<notin> set (COLON typed_collab)"
    by (simp add: typed_collab_fields)
  from q nq cr sample_reads_header show ?thesis
    unfolding collab_roundtrip_def by (simp add: sample_message_values)
qed

lemma sample_date_roundtrip:
  "date_roundtrip typed_collab (Local_date_time 2014 7 17 10 31 49 120)
     ''Thu, 17 Jul 2014 10:31:49 +0200''"
proof -
  have t: "trimmed ''Thu, 17 Jul 2014 10:31:49 +0200''" by code_simp
  have n: "no_crlf ''Thu, 17 Jul 2014 10:31:49 +0200''" by code_simp
  have m: "date_regex ''Thu, 17 Jul 2014 10:31:49 +0200'' =
      Some (''Thu,'', ''17 Jul 2014'', ''10:31:49 +0200'')"
    by code_simp
  have g: "get_date typed_collab (dttz ''Thu,'' ''17 Jul 2014'' ''10:31:49 +0200'') =
      Some (Local_date_time 2014 7 17 10 31 49 120)"
    by code_simp
  from sample_message_values(4) t n m g show ?thesis unfolding date_roundtrip_def by blast
qed

lemma sample_other_header: "list_all (other_header typed_collab) [''Content-Type: text/plain'']"
proof -
  have s: "split_header ''Content-Type: text/plain'' = Inr (''Content-Type'', ''text/plain'')"
    by code_simp
  have n: "\<not> iequals ''Content-Type'' FROM_HEADER" "\<not> iequals ''Content-Type'' REPLY_TO_HEADER"
    "\<not> iequals ''Content-Type'' TO_HEADER" "\<not> iequals ''Content-Type'' CC_HEADER"
    "\<not> iequals ''Content-Type'' SUBJECT_HEADER" "\<not> iequals ''Content-Type'' DATE_HEADER"
    by code_simp+
  have l: "\<not> isspace (hd ''Content-Type: text/plain'')" "no_crlf ''Content-Type: text/plain''"
    by code_simp+
  from s n l show ?thesis
    by (simp add: other_header_def typed_collab_fields)
qed

lemma sample_message_ok:
  "built_by_setters sample_message" "roundtrip_message sample_message"
  "mime_format_header typed_collab (base sample_message) = Inr (joined [''Content-Type: text/plain''])"
  "format_content typed_collab False (base sample_message) = Inr []"
  by code_simp+

lemma sample_message_lines:
  "header_lines (snd (format typed_collab False [] sample_message)) =
     [''From: Alice <alice@x.io>'',
      ''To: '' @ [QUOTE_CHAR] @ ''Doe, John'' @ [QUOTE_CHAR] @
        '' <jdoe@mailio.dev>, <jane@mailio.dev>, Bob, Friends: Carol <carol@x.io>, <dave@x.io>; Team: ;'',
      ''Date: Thu, 17 Jul 2014 10:31:49 +0200'',
      ''Content-Type: text/plain'',
      ''Subject: Hello world'']"
  by code_simp


subsection \<open>Messages that do not come back\<close>

lemma trim_no_leading_space: "trim v = [] \<or> \<not> isspace (hd (trim v))"
proof (cases "trim v = []")
  case True
  then show ?thesis by simp
next
  case False
  let ?t = "dropWhile isspace v"
  let ?u = "rev (dropWhile isspace (rev ?t))"
  have u: "trim v = ?u" by (simp add: trim_def)
  have "?u @ rev (takeWhile isspace (rev ?t)) =
      rev (takeWhile isspace (rev ?t) @ dropWhile isspace (rev ?t))"
    by (simp only: rev_append)
  also have "\<dots> = ?t"
    by (simp only: takeWhile_dropWhile_id rev_rev_ident)
  finally have t: "?t = ?u @ rev (takeWhile isspace (rev ?t))" by (rule sym)
  from False u have ne: "?u \<noteq> []" by simp
  with t have "?t \<noteq> []" by (metis append_is_Nil_conv)
  then have h: "\<not> isspace (hd ?t)" by (rule hd_dropWhile)
  from t ne have "hd ?t = hd ?u" by (metis hd_append2)
  with h u show ?thesis by simp
qed

lemma parse_header_line_subject:
  assumes "parse_header_line c line m0 = Inr m'"
  shows "subject m' = subject m0 \<or> (\<exists>v. subject m' = trim v)"
  using assms
  by (auto simp: parse_header_line_def bind_err_def Let_def
      split: sum.splits if_splits list.splits prod.splits)

lemma feed_subject:
  "feed c lines m0 = Inr m' \<Longrightarrow> subject m' = subject m0 \<or> (\<exists>v. subject m' = trim v)"
proof (induction lines arbitrary: m0)
  case Nil
  then show ?case by simp
next
  case (Cons line rest)
  from Cons.prems obtain m1 where
    l: "parse_header_line c line m0 = Inr m1" and r: "feed c rest m1 = Inr m'"
    by (cases "parse_header_line c line m0") simp_all
  from Cons.IH [OF r] parse_header_line_subject [OF l] show ?case by auto
qed


text \<open>
  The same holds whatever the collaborators and the lines are: the subject that
  \<^verbatim>\<open>parse_header_line\<close> leaves is the one the message had before or a trimmed text.
\<close>

lemma spaced_subject_never_back:
  "feed c lines empty_message = Inr m' \<Longrightarrow> subject m' \<noteq> subject spaced_subject_message"
proof
  assume f: "feed c lines empty_message = Inr m'"
    and s: "subject m' = subject spaced_subject_message"
  have e: "subject empty_message = []" "subject spaced_subject_message = '' x''"
    by code_simp+
  from feed_subject [OF f] s e obtain v where v: "trim v = '' x''" by auto
  have sp: "isspace (hd '' x'')" by (simp add: isspace_def)
  from trim_no_leading_space [of v] v sp show False by simp
qed

text \<open>
  Other values that do not come back, each the reason for a condition of the amended
  claim. Addresses: a name of two words and a quoted name with no mailbox part, a
  mailbox part without \<^verbatim>\<open>@\<close>, a name with a blank at its end, a name of one
  character that ends a list of two addresses (the address before it is lost), and a
  sender left empty.
\<close>

lemma round_trip_limits:
  "format_address ''John Doe'' [] = Inr ''John Doe''"
  "parse_address_list (QTEXT sample_collab) ''John Doe'' = bad_address"
  "format_address ''A.B'' [] = Inr ([QUOTE_CHAR] @ ''A.B'' @ [QUOTE_CHAR])"
  "parse_address_list (QTEXT sample_collab) ([QUOTE_CHAR] @ ''A.B'' @ [QUOTE_CHAR]) = bad_address"
  "format_address [] ''localhost'' = Inr ''<localhost>''"
  "parse_address_list (QTEXT sample_collab) ''<localhost>'' = bad_address"
  "format_address ''Bob '' ''a@x.io'' = Inr ''Bob  <a@x.io>''"
  "parse_address_list (QTEXT sample_collab) ''Bob  <a@x.io>'' =
     Inr \<lparr>addresses = [\<lparr>name = ''Bob'', address = ''a@x.io''\<rparr>], groups = []\<rparr>"
  "format_mailbox \<lparr>addresses = [\<lparr>name = [], address = ''a@x.io''\<rparr>, \<lparr>name = ''B'', address = []\<rparr>],
                   groups = []\<rparr> = Inr ''<a@x.io>, B''"
  "parse_address_list (QTEXT sample_collab) ''<a@x.io>, B'' =
     Inr \<lparr>addresses = [\<lparr>name = ''B'', address = []\<rparr>], groups = []\<rparr>"
  "format_header sample_collab empty_message =
     Inr (''From: '' @ CRLF @ ''To: '' @ CRLF @ ''Subject: '' @ CRLF @ CRLF)"
  "parse_header_line sample_collab ''From: '' empty_message = Inl (Message_error ''Bad sender.'')"
  by code_simp+

text \<open>
  Groups: a group with no address before it, a first member whose name has one
  character (it is read as a part of the mailbox) or is quoted, a last member with no
  mailbox part, a second group whose name has one character, and a group with no name.
\<close>

lemma round_trip_group_limits:
  "format_mailbox \<lparr>addresses = [], groups = [\<lparr>group_name = ''G'', members = [\<lparr>name = [], address = ''a@x.io''\<rparr>]\<rparr>]\<rparr> =
     Inr '', G: <a@x.io>;''"
  "parse_address_list (QTEXT sample_collab) '', G: <a@x.io>;'' = bad_address"
  "format_mailbox \<lparr>addresses = [\<lparr>name = [], address = ''a@x.io''\<rparr>],
                   groups = [\<lparr>group_name = ''G'', members = [\<lparr>name = ''B'', address = ''m@x.io''\<rparr>]\<rparr>]\<rparr> =
     Inr ''<a@x.io>, G: B <m@x.io>;''"
  "parse_address_list (QTEXT sample_collab) ''<a@x.io>, G: B <m@x.io>;'' =
     Inr \<lparr>addresses = [\<lparr>name = [], address = ''a@x.io''\<rparr>],
          groups = [\<lparr>group_name = ''G'', members = [\<lparr>name = [], address = ''Bm@x.io''\<rparr>]\<rparr>]\<rparr>"
  "format_mailbox \<lparr>addresses = [\<lparr>name = [], address = ''a@x.io''\<rparr>],
                   groups = [\<lparr>group_name = ''G'', members = [\<lparr>name = ''A.B'', address = ''m@x.io''\<rparr>]\<rparr>]\<rparr> =
     Inr (''<a@x.io>, G: '' @ [QUOTE_CHAR] @ ''A.B'' @ [QUOTE_CHAR] @ '' <m@x.io>;'')"
  "parse_address_list (QTEXT sample_collab)
     (''<a@x.io>, G: '' @ [QUOTE_CHAR] @ ''A.B'' @ [QUOTE_CHAR] @ '' <m@x.io>;'') = bad_address"
  "format_mailbox \<lparr>addresses = [\<lparr>name = [], address = ''a@x.io''\<rparr>],
                   groups = [\<lparr>group_name = ''G'', members = [\<lparr>name = [], address = ''m@x.io''\<rparr>,
                                                              \<lparr>name = ''Bob'', address = []\<rparr>]\<rparr>]\<rparr> =
     Inr ''<a@x.io>, G: <m@x.io>, Bob;''"
  "parse_address_list (QTEXT sample_collab) ''<a@x.io>, G: <m@x.io>, Bob;'' = bad_address"
  "format_mailbox \<lparr>addresses = [\<lparr>name = [], address = ''a@x.io''\<rparr>],
                   groups = [\<lparr>group_name = ''G'', members = []\<rparr>, \<lparr>group_name = ''H'', members = []\<rparr>]\<rparr> =
     Inr ''<a@x.io>, G: ; H: ;''"
  "parse_address_list (QTEXT sample_collab) ''<a@x.io>, G: ; H: ;'' = bad_address"
  "format_mailbox \<lparr>addresses = [\<lparr>name = [], address = ''a@x.io''\<rparr>],
                   groups = [\<lparr>group_name = [], members = []\<rparr>]\<rparr> = Inr ''<a@x.io>, : ;''"
  "parse_address_list (QTEXT sample_collab) ''<a@x.io>, : ;'' = bad_address"
  by code_simp+

text \<open>
  Lines: a subject with a line break in it, here followed by a second From line, which
  replaces the sender; and a date that is not set, when the message that is given the
  lines has one.
\<close>

lemma round_trip_line_limits:
  "built_by_setters injected_subject_message"
  "trimmed (subject injected_subject_message)"
  "header_lines (snd (format sample_collab False [] injected_subject_message)) =
     [''From: <a@x.io>'', ''To: '', ''Subject: a'', ''From: <evil@x.io>'']"
  "parse_back sample_collab False injected_subject_message empty_message =
     Inr (empty_message\<lparr>sender := \<lparr>name = [], address = ''evil@x.io''\<rparr>, subject := ''a''\<rparr>)"
  "parse_back sample_collab False (empty_message\<lparr>sender := \<lparr>name = [], address = ''a@x.io''\<rparr>\<rparr>)
     (empty_message\<lparr>date_time := Local_date_time 2014 7 17 10 31 49 120\<rparr>) =
     Inr (empty_message\<lparr>sender := \<lparr>name = [], address = ''a@x.io''\<rparr>,
                         date_time := Local_date_time 2014 7 17 10 31 49 120\<rparr>)"
  by code_simp+

section \<open>The date library as modelled\<close>

text \<open>
  With the writer and the reader as modelled, the condition on the date library holds
  for every valid date: the text written matches the regular expression of
  \<^verbatim>\<open>parse_date\<close>, and the reader gets the date back from what \<^verbatim>\<open>parse_date\<close>
  makes of it.
\<close>

lemma digit_char:
  assumes "k < 10"
  shows "isdigit (char_of (48 + k))" "digit_val (char_of (48 + k)) = k"
    "\<not> blank (char_of (48 + k))" "char_of (48 + k) \<noteq> CHR '' ''"
proof -
  from assms have v: "of_char (char_of (48 + k)) = 48 + k"
    by (simp add: of_char_of)
  from v assms show "isdigit (char_of (48 + k))" by (simp add: isdigit_def)
  from v show "digit_val (char_of (48 + k)) = k" by simp
  have ne: "char_of (48 + k) \<noteq> ch" if "of_char ch \<noteq> (48 + k :: nat)" for ch :: char
    using v that by auto
  have sp: "char_of (48 + k) \<noteq> CHR '' ''" by (rule ne) simp
  have tb: "char_of (48 + k) \<noteq> CHR 0x09" by (rule ne) simp
  from sp tb show "\<not> blank (char_of (48 + k))" by (simp add: blank_def)
  from sp show "char_of (48 + k) \<noteq> CHR '' ''" .
qed

lemma digits2_props:
  assumes "n < 100"
  shows "\<exists>a b. digits2 n = [a, b] \<and> isdigit a \<and> isdigit b \<and> number [a, b] = Some n"
proof -
  let ?a = "char_of (48 + n div 10 mod 10) :: char" and ?b = "char_of (48 + n mod 10) :: char"
  have a: "n div 10 mod 10 < 10" and b: "n mod 10 < 10" by simp_all
  from assms have n: "10 * (n div 10 mod 10) + n mod 10 = n" by simp
  have "number [?a, ?b] = Some n"
    using digit_char(1,2) [OF a] digit_char(1,2) [OF b] n by (simp add: number_def)
  then show ?thesis
    using digit_char(1) [OF a] digit_char(1) [OF b] by (simp add: digits2_def)
qed

lemma digits4_props:
  assumes "n < 10000"
  shows "\<exists>a b c d. digits4 n = [a, b, c, d] \<and> isdigit a \<and> isdigit b \<and> isdigit c \<and> isdigit d \<and>
    number [a, b, c, d] = Some n"
proof -
  from assms have h: "n div 100 < 100" and l: "n mod 100 < 100" by simp_all
  from digits2_props [OF h] obtain a b where
    ab: "digits2 (n div 100) = [a, b]" "isdigit a" "isdigit b" "number [a, b] = Some (n div 100)"
    by blast
  from digits2_props [OF l] obtain c d where
    cd: "digits2 (n mod 100) = [c, d]" "isdigit c" "isdigit d" "number [c, d] = Some (n mod 100)"
    by blast
  from ab(2,3,4) have x: "10 * digit_val a + digit_val b = n div 100"
    by (simp add: number_def)
  from cd(2,3,4) have y: "10 * digit_val c + digit_val d = n mod 100"
    by (simp add: number_def)
  have "10 * (10 * (10 * digit_val a + digit_val b) + digit_val c) + digit_val d = n"
    unfolding x using y by presburger
  then have "number [a, b, c, d] = Some n"
    using ab(2,3) cd(2,3) by (simp add: number_def algebra_simps)
  with ab cd show ?thesis by (simp add: digits4_def)
qed

lemma class_not_blank:
  "isalpha ch \<Longrightarrow> \<not> blank ch" "isdigit ch \<Longrightarrow> \<not> blank ch"
  by (auto simp: isalpha_def isdigit_def blank_def)

lemma isdigit_not_space: "isdigit ch \<Longrightarrow> ch \<noteq> CHR '' ''"
  by (auto simp: isdigit_def)

lemma punctuation_blank:
  "blank CHR '' ''" "\<not> blank CHR '',''" "\<not> blank CHR ''+''" "\<not> blank CHR ''-''"
  "\<not> isspace CHR ''0''" "\<not> isspace CHR ''1''" 
  by (simp_all add: blank_def isspace_def)

lemma date_regex_canonical:
  assumes "isalpha w1" "isalpha w2" "isalpha w3" "isdigit d1" "isdigit d2"
    "isalpha o1" "isalpha o2" "isalpha o3" "isdigit y1" "isdigit y2" "isdigit y3" "isdigit y4"
    "isdigit h1" "isdigit h2" "isdigit i1" "isdigit i2" "isdigit s1" "isdigit s2"
    "isdigit z1" "isdigit z2" "isdigit z3" "isdigit z4" "sg = CHR ''+'' \<or> sg = CHR ''-''"
  shows "date_regex
     ([w1, w2, w3] @ '', '' @ [d1, d2] @ '' '' @ [o1, o2, o3] @ '' '' @ [y1, y2, y3, y4] @ '' '' @
      [h1, h2] @ '':'' @ [i1, i2] @ '':'' @ [s1, s2] @ '' '' @ [sg] @ [z1, z2] @ [z3, z4]) =
    Some ([w1, w2, w3] @ '','', [d1, d2] @ '' '' @ [o1, o2, o3] @ '' '' @ [y1, y2, y3, y4],
          [h1, h2] @ '':'' @ [i1, i2] @ '':'' @ [s1, s2] @ '' '' @ [sg] @ [z1, z2] @ [z3, z4])"
proof -
  from assms(23) have sgb: "\<not> blank sg" using punctuation_blank by auto
  have g1: "rx_group1
     (w1 # w2 # w3 # CHR '','' # rest) = Some ([w1, w2, w3, CHR '',''], rest)" for rest
    using assms(1-3)
    by (simp add: rx_group1_def rx_then_def rx_exactly_def rx_star_def rx_char_def punctuation_blank)
  have g2: "rx_group2 (d1 # d2 # CHR '' '' # o1 # o2 # o3 # CHR '' '' # y1 # y2 # y3 # y4 # CHR '' '' # rest) =
      Some ([d1, d2, CHR '' '', o1, o2, o3, CHR '' '', y1, y2, y3, y4], CHR '' '' # rest)" for rest
    using assms(4-12)
    by (simp add: rx_group2_def rx_then_def rx_exactly_def rx_digits_1_2_def rx_plus_def
        punctuation_blank class_not_blank)
  have g3: "rx_group3 (h1 # h2 # CHR '':'' # i1 # i2 # CHR '':'' # s1 # s2 # CHR '' '' # sg # z1 # z2 # z3 # z4 # rest) =
      Some ([h1, h2, CHR '':'', i1, i2, CHR '':'', s1, s2, CHR '' '', sg, z1, z2, z3, z4], rest)" for rest
    using assms(13-22) sgb assms(23)
    by (simp add: rx_group3_def rx_then_def rx_exactly_def rx_char_def rx_plus_def
        punctuation_blank class_not_blank)
  have p1: "rx_plus blank (CHR '' '' # d1 # rest) = Some ('' '', d1 # rest)" for rest
    using assms(4) by (simp add: rx_plus_def punctuation_blank class_not_blank)
  have p2: "rx_plus blank (CHR '' '' # h1 # rest) = Some ('' '', h1 # rest)" for rest
    using assms(13) by (simp add: rx_plus_def punctuation_blank class_not_blank)
  show ?thesis
    by (simp add: date_regex_def g1 g2 g3 p1 p2)
qed

lemma weekday_name_shape:
  assumes "k < 7"
  shows "\<exists>w1 w2 w3. weekday_names ! k = [w1, w2, w3] \<and> isalpha w1 \<and> isalpha w2 \<and> isalpha w3 \<and>
    [w1, w2, w3] \<in> set weekday_names"
proof -
  from assms have "k = 0 \<or> k = 1 \<or> k = 2 \<or> k = 3 \<or> k = 4 \<or> k = 5 \<or> k = 6"
    by presburger
  then show ?thesis
    by (elim disjE) (simp_all add: weekday_names_def isalpha_def)
qed

lemma month_name_shape:
  assumes "1 \<le> m" "m \<le> 12"
  shows "\<exists>o1 o2 o3. fst (month_names ! (m - 1)) = [o1, o2, o3] \<and> isalpha o1 \<and> isalpha o2 \<and>
    isalpha o3 \<and> map_of month_names [o1, o2, o3] = Some m"
proof -
  from assms have "m = 1 \<or> m = 2 \<or> m = 3 \<or> m = 4 \<or> m = 5 \<or> m = 6 \<or>
      m = 7 \<or> m = 8 \<or> m = 9 \<or> m = 10 \<or> m = 11 \<or> m = 12"
    by presburger
  then show ?thesis
    by (elim disjE) (simp_all add: month_names_def isalpha_def)
qed

lemma dttz_canonical:
  assumes "d2 \<noteq> CHR '' ''"
  shows "dttz ([w1, w2, w3] @ '','') ([d1, d2] @ '' '' @ [o1, o2, o3] @ '' '' @ [y1, y2, y3, y4])
      ([h1, h2] @ '':'' @ [i1, i2] @ '':'' @ [s1, s2] @ '' '' @ [sg] @ [z1, z2] @ [z3, z4]) =
    [w1, w2, w3] @ '', '' @ [d1, d2] @ '' '' @ [o1, o2, o3] @ '' '' @ [y1, y2, y3, y4] @ '' '' @
    [h1, h2] @ '':'' @ [i1, i2] @ '':'' @ [s1, s2] @ '' '' @ [sg] @ [z1, z2] @ '':'' @ [z3, z4]"
  using assms by (simp add: dttz_def)

lemma read_date_canonical:
  assumes "[w1, w2, w3] \<in> set weekday_names"
    and "number [d1, d2] = Some d" "map_of month_names [o1, o2, o3] = Some m"
    and "number [y1, y2, y3, y4] = Some y" "number [h1, h2] = Some hh"
    and "number [i1, i2] = Some mi" "number [s1, s2] = Some ss"
    and "number [z1, z2] = Some zh" "number [z3, z4] = Some zm"
    and "1 \<le> d" "d \<le> 31" "hh < 24" "mi < 60" "ss < 60" "zm < 60"
    and "sg = CHR ''+'' \<or> sg = CHR ''-''"
  shows "read_date ([w1, w2, w3] @ '', '' @ [d1, d2] @ '' '' @ [o1, o2, o3] @ '' '' @
      [y1, y2, y3, y4] @ '' '' @ [h1, h2] @ '':'' @ [i1, i2] @ '':'' @ [s1, s2] @ '' '' @ [sg] @
      [z1, z2] @ '':'' @ [z3, z4]) =
    Some (Local_date_time y m d hh mi ss ((if sg = CHR ''-'' then - 1 else 1) * int (60 * zh + zm)))"
  using assms by (auto simp: read_date_def)

lemma offset_sign:
  "(if (if off < 0 then CHR ''-'' else CHR ''+'') = CHR ''-'' then - 1 else 1) *
     int (60 * (nat \<bar>off\<bar> div 60) + nat \<bar>off\<bar> mod 60) = off"
  by simp

lemma write_date_reads_back:
  assumes v: "valid_date d" and p: "put_date c = write_date" and g: "get_date c = read_date"
  shows "\<exists>txt. date_roundtrip c d txt"
proof -
  from v obtain y m dd hh mi ss off where d: "d = Local_date_time y m dd hh mi ss off"
    and b: "y < 10000" "1 \<le> m" "m \<le> 12" "1 \<le> dd" "dd \<le> 31" "hh < 24" "mi < 60" "ss < 60"
      "\<bar>off\<bar> < 6000"
    by (cases d) (auto simp: valid_date_def)
  let ?sg = "if off < 0 then CHR ''-'' else CHR ''+''"
  let ?zh = "nat \<bar>off\<bar> div 60" and ?zm = "nat \<bar>off\<bar> mod 60"
  have dow: "day_of_week y m dd < 7" by (simp add: day_of_week_def Let_def)
  from weekday_name_shape [OF dow] obtain w1 w2 w3 where
    w: "weekday_names ! day_of_week y m dd = [w1, w2, w3]" "isalpha w1" "isalpha w2" "isalpha w3"
      "[w1, w2, w3] \<in> set weekday_names"
    by blast
  from month_name_shape [OF b(2,3)] obtain o1 o2 o3 where
    mo: "fst (month_names ! (m - 1)) = [o1, o2, o3]" "isalpha o1" "isalpha o2" "isalpha o3"
      "map_of month_names [o1, o2, o3] = Some m"
    by blast
  from b(5) have "dd < 100" by simp
  from digits2_props [OF this] obtain d1 d2 where
    dd: "digits2 dd = [d1, d2]" "isdigit d1" "isdigit d2" "number [d1, d2] = Some dd" by blast
  from digits4_props [OF b(1)] obtain y1 y2 y3 y4 where
    yy: "digits4 y = [y1, y2, y3, y4]" "isdigit y1" "isdigit y2" "isdigit y3" "isdigit y4"
      "number [y1, y2, y3, y4] = Some y" by blast
  from b(6) have "hh < 100" by simp
  from digits2_props [OF this] obtain h1 h2 where
    hh: "digits2 hh = [h1, h2]" "isdigit h1" "isdigit h2" "number [h1, h2] = Some hh" by blast
  from b(7) have "mi < 100" by simp
  from digits2_props [OF this] obtain i1 i2 where
    mi: "digits2 mi = [i1, i2]" "isdigit i1" "isdigit i2" "number [i1, i2] = Some mi" by blast
  from b(8) have "ss < 100" by simp
  from digits2_props [OF this] obtain s1 s2 where
    ss: "digits2 ss = [s1, s2]" "isdigit s1" "isdigit s2" "number [s1, s2] = Some ss" by blast
  from b(9) have "?zh < 100" by linarith
  from digits2_props [OF this] obtain z1 z2 where
    zh: "digits2 ?zh = [z1, z2]" "isdigit z1" "isdigit z2" "number [z1, z2] = Some ?zh" by blast
  have zm60: "?zm < 60" by simp
  then have "?zm < 100" by linarith
  from digits2_props [OF this] obtain z3 z4 where
    zm: "digits2 ?zm = [z3, z4]" "isdigit z3" "isdigit z4" "number [z3, z4] = Some ?zm" by blast
  have sg: "?sg = CHR ''+'' \<or> ?sg = CHR ''-''" by simp
  let ?txt = "[w1, w2, w3] @ '', '' @ [d1, d2] @ '' '' @ [o1, o2, o3] @ '' '' @ [y1, y2, y3, y4] @
      '' '' @ [h1, h2] @ '':'' @ [i1, i2] @ '':'' @ [s1, s2] @ '' '' @ [?sg] @ [z1, z2] @ [z3, z4]"
  from mo(1) have mo1: "fst (month_names ! (m - Suc 0)) = [o1, o2, o3]" by simp
  have wr: "write_date d = Some ?txt"
    using b(2,3) by (simp add: d write_date_def w(1) mo1 dd(1) yy(1) hh(1) mi(1) ss(1) zh(1) zm(1))
  have rx: "date_regex ?txt =
      Some ([w1, w2, w3] @ '','', [d1, d2] @ '' '' @ [o1, o2, o3] @ '' '' @ [y1, y2, y3, y4],
            [h1, h2] @ '':'' @ [i1, i2] @ '':'' @ [s1, s2] @ '' '' @ [?sg] @ [z1, z2] @ [z3, z4])"
    by (rule date_regex_canonical [OF w(2,3,4) dd(2,3) mo(2,3,4) yy(2,3,4,5) hh(2,3) mi(2,3) ss(2,3)
        zh(2,3) zm(2,3) sg])
  from dd(3) have d2: "d2 \<noteq> CHR '' ''" by (rule isdigit_not_space)
  have rd: "read_date (dttz ([w1, w2, w3] @ '','')
        ([d1, d2] @ '' '' @ [o1, o2, o3] @ '' '' @ [y1, y2, y3, y4])
        ([h1, h2] @ '':'' @ [i1, i2] @ '':'' @ [s1, s2] @ '' '' @ [?sg] @ [z1, z2] @ [z3, z4])) =
      Some d"
    unfolding dttz_canonical [OF d2] d
    using read_date_canonical [OF w(5) dd(4) mo(5) yy(6) hh(4) mi(4) ss(4) zh(4) zm(4)
        b(4,5,6,7,8) zm60 sg]
    by (simp only: offset_sign)
  have "\<not> isspace w1" using w(2) alnum_not_space by blast
  moreover have "\<not> isspace z4" using zm(3) alnum_not_space by blast
  ultimately have tr: "trimmed ?txt" by (simp add: trimmed_def)
  have ncr: "ch \<noteq> CHR 0x0D" if "isalpha ch \<or> isdigit ch" for ch
    using alnum_not_space [OF that] by (auto simp: isspace_def)
  have "CHR 0x0D \<notin> set ?txt"
    using ncr [of w1] ncr [of w2] ncr [of w3] ncr [of d1] ncr [of d2] ncr [of o1] ncr [of o2]
      ncr [of o3] ncr [of y1] ncr [of y2] ncr [of y3] ncr [of y4] ncr [of h1] ncr [of h2]
      ncr [of i1] ncr [of i2] ncr [of s1] ncr [of s2] ncr [of z1] ncr [of z2] ncr [of z3]
      ncr [of z4] w(2,3,4) dd(2,3) mo(2,3,4) yy(2,3,4,5) hh(2,3) mi(2,3) ss(2,3) zh(2,3) zm(2,3)
    by simp
  then have nl: "no_crlf ?txt" by (rule no_cr_no_crlf)
  have "date_roundtrip c d ?txt"
    unfolding date_roundtrip_def using wr rx rd tr nl by (auto simp: p g d)
  then show ?thesis ..
qed

end
